theory Spec2Isabelle
  imports Main "HOL-Library.Multiset"
begin

section \<open>The frame orchestrator of the game renderer (Renderer.ts)\<close>

text \<open>
  The class \<open>Renderer\<close> owns a render loop and a fixed set of sub-renderers. Everything it
  does is a call on a collaborator (a sub-renderer, the state provider, the host's clock
  and scheduler), an assignment to one of its own fields, or an assignment to the static
  field \<open>Renderer.instance\<close>. The embedding is explicit state passing over a \<open>world\<close>:
  the store of \<open>Renderer\<close> objects, the static field, the host scheduler's pending
  callbacks, and the trace of calls made on collaborators, in the order they were made.
  The collaborators' own code is not in \<open>Renderer.ts\<close>: a call on one of them is recorded
  in the trace with its receiver and its arguments, and what it returns is read from an
  environment \<open>env\<close> as a function of the trace so far. \<open>Renderer.ts\<close> raises and
  catches nothing itself, and the collaborators are taken to return normally and not to
  call back into \<open>Renderer.initialize\<close>, \<open>Renderer.destroy\<close> or the loop.
\<close>

subsection \<open>Data\<close>

type_synonym ref = nat \<comment> \<open>address of a \<open>Renderer\<close> object in the store\<close>
type_synonym canvas = nat \<comment> \<open>an \<open>HTMLCanvasElement\<close>\<close>
type_synonym uiManager = nat \<comment> \<open>a \<open>GameUIManager\<close> object\<close>
type_synonym plugins = nat \<comment> \<open>a plugin manager object\<close>
type_synonym locations = "nat list"
type_synonym chunks = "nat list"

text \<open>
  Receivers of calls. The sub-component stored in field \<open>f\<close> of the renderer at address
  \<open>r\<close> is written \<open>f r\<close>: every such field is assigned once, in the constructor or in
  \<open>setup\<close>, before its first use, and never reassigned.
\<close>

datatype obj =
    GameUIManager uiManager
  | PluginManager plugins
  | glManager ref
  | overlay2dRenderer ref
  | lineRenderer ref
  | circleRenderer ref
  | textRenderer ref
  | rectRenderer ref
  | bgRenderer ref
  | planetRenderer ref
  | asteroidRenderer ref
  | beltRenderer ref
  | mineRenderer ref
  | spriteRenderer ref
  | quasarRenderer ref
  | spacetimeRipRenderer ref
  | ruinsRenderer ref
  | ringRenderer ref
  | blackDomainRenderer ref
  | uiRenderManager ref
  | planetRenderManager ref
  | voyageRenderManager ref
  | wormholeRenderManager ref

datatype ctx2d = ctx obj \<comment> \<open>the field \<open>ctx\<close> of an overlay renderer\<close>

datatype arg = Athis ref | Acanvas canvas | Aobj obj | Abool bool

datatype meth =
    setProjectionMatrix
  | clear
  | getLocationsAndChunks
  | drawChunks chunks
  | queueBorders
  | queueSelectedRangeRing
  | queueSelectedRect
  | queueHoveringRect
  | queueMousePath
  | drawMiner
  | queueVoyages
  | queueWormholes
  | queuePlanets locations int
  | flush
  | getPluginManager
  | drawAllRunningPlugins ctx2d

datatype call =
    Call obj meth \<comment> \<open>\<open>receiver.method(arguments)\<close>\<close>
  | New obj "arg list" \<comment> \<open>\<open>this.field = new Class(arguments)\<close>, named by the field\<close>
  | DateNow \<comment> \<open>\<open>Date.now()\<close>\<close>
  | AutoBind ref \<comment> \<open>\<open>autoBind(this)\<close>\<close>
  | RequestAnimationFrame ref \<comment> \<open>\<open>window.requestAnimationFrame(() => this.loop())\<close>\<close>
  | CancelAnimationFrame "nat option" \<comment> \<open>\<open>window.cancelAnimationFrame(id)\<close>\<close>

text \<open>
  The scalar fields of a \<open>Renderer\<close>. \<open>frameRequestId\<close> is \<open>None\<close> while the field is
  still undefined (until the first loop iteration has scheduled its successor).
  \<open>frameCount\<close> is a JavaScript number that only ever holds a natural number.
\<close>

record renderer =
  canvas :: canvas
  glCanvas :: canvas
  bufferCanvas :: canvas
  frameRequestId :: "nat option"
  gameUIManager :: uiManager
  frameCount :: nat
  now :: int

text \<open>
  \<open>Renderer_instance\<close> is the static field \<open>Renderer.instance\<close>; \<open>None\<close> stands for
  \<open>null\<close> (and for the field before its first assignment). \<open>scheduled\<close> holds the host's
  pending animation-frame callbacks: the request id and the renderer whose \<open>loop\<close> the
  callback runs. The sub-components are constructed with a reference to the renderer (or
  to its \<open>glManager\<close>, which holds one), so whatever runs during a call can read
  \<open>frameCount\<close> and call \<open>debug\<close>: \<open>seen\<close> records, for every call of the trace, the
  frame counters of the renderers in the store at the moment of the call.
\<close>

record world =
  objs :: "renderer list"
  Renderer_instance :: "ref option"
  scheduled :: "(nat \<times> ref) list"
  next_request :: nat
  trace :: "call list"
  seen :: "nat list list"

record env =
  Date_now_result :: "call list \<Rightarrow> int"
  getLocationsAndChunks_result :: "call list \<Rightarrow> locations \<times> chunks"
  getPluginManager_result :: "call list \<Rightarrow> plugins option"

subsection \<open>Calls on collaborators and the host\<close>

definition ext :: "call \<Rightarrow> world \<Rightarrow> world" where
  "ext c w = w\<lparr>trace := trace w @ [c], seen := seen w @ [map frameCount (objs w)]\<rparr>"

definition Date_now :: "env \<Rightarrow> world \<Rightarrow> int \<times> world" where
  "Date_now E w = (Date_now_result E (trace w), ext DateNow w)"

definition getLocationsAndChunks_of ::
  "env \<Rightarrow> uiManager \<Rightarrow> world \<Rightarrow> (locations \<times> chunks) \<times> world" where
  "getLocationsAndChunks_of E g w =
     (getLocationsAndChunks_result E (trace w), ext (Call (GameUIManager g) getLocationsAndChunks) w)"

definition getPluginManager_of :: "env \<Rightarrow> uiManager \<Rightarrow> world \<Rightarrow> plugins option \<times> world" where
  "getPluginManager_of E g w =
     (getPluginManager_result E (trace w), ext (Call (GameUIManager g) getPluginManager) w)"

text \<open>
  The host scheduler: a request gets a fresh id and is appended to the pending callbacks;
  cancelling removes the request with that id, and does nothing for an id that is not
  pending or is undefined.
\<close>

definition requestAnimationFrame :: "ref \<Rightarrow> world \<Rightarrow> nat \<times> world" where
  "requestAnimationFrame this w =
     (next_request w,
      (ext (RequestAnimationFrame this) w)
        \<lparr>scheduled := scheduled w @ [(next_request w, this)],
         next_request := next_request w + 1\<rparr>)"

definition cancelAnimationFrame :: "nat option \<Rightarrow> world \<Rightarrow> world" where
  "cancelAnimationFrame h w =
     (ext (CancelAnimationFrame h) w)
       \<lparr>scheduled := filter (\<lambda>(i, r). Some i \<noteq> h) (scheduled w)\<rparr>"

definition assign :: "ref \<Rightarrow> (renderer \<Rightarrow> renderer) \<Rightarrow> world \<Rightarrow> world" where
  "assign this f w = w\<lparr>objs := (objs w)[this := f (objs w ! this)]\<rparr>"

subsection \<open>The methods of \<open>Renderer\<close>\<close>

definition draw :: "env \<Rightarrow> ref \<Rightarrow> world \<Rightarrow> world" where
  "draw E this w0 =
    (let w1 = ext (Call (glManager this) setProjectionMatrix) w0;
         w2 = ext (Call (overlay2dRenderer this) clear) w1;
         w3 = ext (Call (glManager this) clear) w2;
         ((locations, chunks), w4) =
            getLocationsAndChunks_of E (gameUIManager (objs w3 ! this)) w3;
         w5 = ext (Call (bgRenderer this) (drawChunks chunks)) w4;
         w6 = ext (Call (uiRenderManager this) queueBorders) w5;
         w7 = ext (Call (uiRenderManager this) queueSelectedRangeRing) w6;
         w8 = ext (Call (uiRenderManager this) queueSelectedRect) w7;
         w9 = ext (Call (uiRenderManager this) queueHoveringRect) w8;
         w10 = ext (Call (uiRenderManager this) queueMousePath) w9;
         w11 = ext (Call (uiRenderManager this) drawMiner) w10;
         w12 = ext (Call (voyageRenderManager this) queueVoyages) w11;
         w13 = ext (Call (wormholeRenderManager this) queueWormholes) w12;
         w14 = ext (Call (planetRenderManager this)
                      (queuePlanets locations (now (objs w13 ! this)))) w13;
         w15 = ext (Call (lineRenderer this) flush) w14;
         w16 = ext (Call (planetRenderManager this) flush) w15;
         w17 = ext (Call (circleRenderer this) flush) w16;
         w18 = ext (Call (rectRenderer this) flush) w17;
         w19 = ext (Call (textRenderer this) flush) w18;
         w20 = ext (Call (spriteRenderer this) flush) w19;
         (pm, w21) = getPluginManager_of E (gameUIManager (objs w20 ! this)) w20
     in case pm of
          None \<Rightarrow> w21
        | Some p \<Rightarrow>
            ext (Call (PluginManager p) (drawAllRunningPlugins (ctx (overlay2dRenderer this)))) w21)"

definition loop :: "env \<Rightarrow> ref \<Rightarrow> world \<Rightarrow> world" where
  "loop E this w0 =
    (let w1 = assign this (\<lambda>r. r\<lparr>frameCount := frameCount r + 1\<rparr>) w0;
         (t, w2) = Date_now E w1;
         w3 = assign this (\<lambda>r. r\<lparr>now := t\<rparr>) w2;
         w4 = draw E this w3;
         (h, w5) = requestAnimationFrame this w4
     in assign this (\<lambda>r. r\<lparr>frameRequestId := Some h\<rparr>) w5)"

definition Renderer_setup :: "env \<Rightarrow> ref \<Rightarrow> world \<Rightarrow> world" where
  "Renderer_setup E this w0 =
    (let w1 = ext (New (bgRenderer this) [Aobj (glManager this)]) w0;
         w2 = ext (New (planetRenderer this) [Aobj (glManager this)]) w1;
         w3 = ext (New (asteroidRenderer this) [Aobj (glManager this)]) w2;
         w4 = ext (New (beltRenderer this) [Aobj (glManager this)]) w3;
         w5 = ext (New (mineRenderer this) [Aobj (glManager this)]) w4;
         w6 = ext (New (spriteRenderer this) [Aobj (glManager this), Abool True, Abool True]) w5;
         w7 = ext (New (quasarRenderer this) [Aobj (glManager this)]) w6;
         w8 = ext (New (spacetimeRipRenderer this) [Aobj (glManager this)]) w7;
         w9 = ext (New (ruinsRenderer this) [Aobj (glManager this)]) w8;
         w10 = ext (New (ringRenderer this) [Aobj (glManager this)]) w9;
         w11 = ext (New (blackDomainRenderer this) [Aobj (glManager this)]) w10;
         w12 = ext (New (lineRenderer this) [Aobj (glManager this)]) w11;
         w13 = ext (New (circleRenderer this) [Aobj (glManager this)]) w12;
         w14 = ext (New (rectRenderer this) [Aobj (glManager this)]) w13;
         w15 = ext (New (textRenderer this)
                      [Aobj (glManager this), Acanvas (bufferCanvas (objs w14 ! this))]) w14;
         w16 = ext (New (voyageRenderManager this) [Athis this]) w15;
         w17 = ext (New (wormholeRenderManager this) [Athis this]) w16;
         w18 = ext (New (planetRenderManager this) [Athis this]) w17;
         w19 = ext (New (uiRenderManager this) [Athis this]) w18
     in loop E this w19)"

text \<open>
  The constructor. The new object's address is the next free one. The two render engines
  are constructed with the address alone; the object enters the store with the scalar
  fields the constructor assigns (\<open>frameCount = 0\<close>, \<open>now = Date.now()\<close>), and \<open>setup\<close>
  runs as the constructor's last statement.
\<close>

definition Renderer_new ::
  "env \<Rightarrow> canvas \<Rightarrow> canvas \<Rightarrow> canvas \<Rightarrow> uiManager \<Rightarrow> world \<Rightarrow> ref \<times> world" where
  "Renderer_new E cv gl buf g w0 =
    (let this = length (objs w0);
         w1 = ext (New (glManager this) [Athis this, Acanvas gl]) w0;
         w2 = ext (New (overlay2dRenderer this) [Athis this, Acanvas cv]) w1;
         (t, w3) = Date_now E w2;
         w4 = w3\<lparr>objs := objs w3 @
                [\<lparr>canvas = cv, glCanvas = gl, bufferCanvas = buf, frameRequestId = None,
                  gameUIManager = g, frameCount = 0, now = t\<rparr>]\<rparr>;
         w5 = ext (AutoBind this) w4
     in (this, Renderer_setup E this w5))"

definition destroy :: "world \<Rightarrow> world" where
  "destroy w0 =
    (let w1 = (case Renderer_instance w0 of
                 Some r \<Rightarrow> cancelAnimationFrame (frameRequestId (objs w0 ! r)) w0
               | None \<Rightarrow> w0)
     in w1\<lparr>Renderer_instance := None\<rparr>)"

definition initialize ::
  "env \<Rightarrow> canvas \<Rightarrow> canvas \<Rightarrow> canvas \<Rightarrow> uiManager \<Rightarrow> world \<Rightarrow> ref \<times> world" where
  "initialize E cv gl buf g w0 =
    (let (canvasRenderer, w1) = Renderer_new E cv gl buf g w0;
         w2 = w1\<lparr>Renderer_instance := Some canvasRenderer\<rparr>
     in (canvasRenderer, w2))"

text \<open>
  JavaScript's \<open>%\<close> on integer-valued numbers: \<open>NaN\<close> (here \<open>None\<close>) for a zero divisor,
  otherwise the remainder of the truncating division, which takes the dividend's sign.
\<close>

definition js_rem :: "int \<Rightarrow> int \<Rightarrow> int option" where
  "js_rem a b = (if b = 0 then None else Some (sgn a * (\<bar>a\<bar> mod \<bar>b\<bar>)))"

text \<open>\<open>debug(interval = 120)\<close>: the argument is \<open>None\<close> when the caller passes none.\<close>

definition debug :: "renderer \<Rightarrow> int option \<Rightarrow> bool" where
  "debug this interval_arg =
    (let interval = (case interval_arg of None \<Rightarrow> 120 | Some i \<Rightarrow> i)
     in js_rem (int (frameCount this)) interval = Some 0)"

subsection \<open>The host running callbacks\<close>

text \<open>
  The host running a pending callback: the request leaves the pending set and the
  callback \<open>() => this.loop()\<close> runs. An id that is not pending runs nothing.
\<close>

definition fire :: "env \<Rightarrow> nat \<Rightarrow> world \<Rightarrow> world" where
  "fire E h w =
    (case map_of (scheduled w) h of
       None \<Rightarrow> w
     | Some this \<Rightarrow> loop E this (w\<lparr>scheduled := filter (\<lambda>(i, r). i \<noteq> h) (scheduled w)\<rparr>))"

text \<open>The world before any renderer exists; the host's request ids start at 1.\<close>

definition world0 :: world where
  "world0 = \<lparr>objs = [], Renderer_instance = None, scheduled = [], next_request = 1,
              trace = [], seen = []\<rparr>"

subsection \<open>Worlds inside the constructor and the loop\<close>

text \<open>The calls made between two worlds of one run: what the later trace adds.\<close>

definition calls_since :: "world \<Rightarrow> world \<Rightarrow> call list" where
  "calls_since w w' = drop (length (trace w)) (trace w')"

text \<open>What those calls could see of the frame counters, call by call.\<close>

definition seen_since :: "world \<Rightarrow> world \<Rightarrow> nat list list" where
  "seen_since w w' = drop (length (seen w)) (seen w')"

text \<open>
  The world in which an iteration of \<open>loop\<close> invokes \<open>draw\<close>: the first three statements of
  \<open>loop\<close> have run (see \<open>loop_unfold\<close> below).
\<close>

definition entering :: "env \<Rightarrow> ref \<Rightarrow> world \<Rightarrow> world" where
  "entering E this w =
     assign this (\<lambda>r. r\<lparr>now := Date_now_result E (trace w)\<rparr>)
       (ext DateNow (assign this (\<lambda>r. r\<lparr>frameCount := frameCount r + 1\<rparr>) w))"

text \<open>
  The world after the nineteen constructor calls of \<open>setup\<close>, before it starts the loop
  (see \<open>setup_unfold\<close> below); \<open>buf\<close> is the renderer's \<open>bufferCanvas\<close>.
\<close>

definition constructed :: "ref \<Rightarrow> canvas \<Rightarrow> world \<Rightarrow> world" where
  "constructed this buf w =
     fold ext
       [New (bgRenderer this) [Aobj (glManager this)],
        New (planetRenderer this) [Aobj (glManager this)],
        New (asteroidRenderer this) [Aobj (glManager this)],
        New (beltRenderer this) [Aobj (glManager this)],
        New (mineRenderer this) [Aobj (glManager this)],
        New (spriteRenderer this) [Aobj (glManager this), Abool True, Abool True],
        New (quasarRenderer this) [Aobj (glManager this)],
        New (spacetimeRipRenderer this) [Aobj (glManager this)],
        New (ruinsRenderer this) [Aobj (glManager this)],
        New (ringRenderer this) [Aobj (glManager this)],
        New (blackDomainRenderer this) [Aobj (glManager this)],
        New (lineRenderer this) [Aobj (glManager this)],
        New (circleRenderer this) [Aobj (glManager this)],
        New (rectRenderer this) [Aobj (glManager this)],
        New (textRenderer this) [Aobj (glManager this), Acanvas buf],
        New (voyageRenderManager this) [Athis this],
        New (wormholeRenderManager this) [Athis this],
        New (planetRenderManager this) [Athis this],
        New (uiRenderManager this) [Athis this]] w"

text \<open>
  The world in which the constructor, through \<open>setup\<close>, starts the loop: the two render
  engines are built, the object is in the store with \<open>frameCount = 0\<close>, and the nineteen
  sub-components of \<open>setup\<close> are built (see \<open>new_before_loop\<close> below).
\<close>

definition before_loop ::
  "env \<Rightarrow> canvas \<Rightarrow> canvas \<Rightarrow> canvas \<Rightarrow> uiManager \<Rightarrow> world \<Rightarrow> world" where
  "before_loop E cv gl buf g w =
    (let this = length (objs w);
         w2 = ext (New (overlay2dRenderer this) [Athis this, Acanvas cv])
                (ext (New (glManager this) [Athis this, Acanvas gl]) w);
         w3 = ext DateNow w2;
         w4 = w3\<lparr>objs := objs w3 @
                [\<lparr>canvas = cv, glCanvas = gl, bufferCanvas = buf, frameRequestId = None,
                  gameUIManager = g, frameCount = 0, now = Date_now_result E (trace w2)\<rparr>]\<rparr>
     in constructed this buf (ext (AutoBind this) w4))"

subsection \<open>Classes of calls\<close>

text \<open>Calls that are the plugin-drawing hook, and the timestamps a call passes on.\<close>

fun plugin_draw :: "call \<Rightarrow> bool" where
  "plugin_draw (Call b (drawAllRunningPlugins c)) = True"
| "plugin_draw c = False"

fun timestamps :: "call \<Rightarrow> int list" where
  "timestamps (Call b (queuePlanets l t)) = [t]"
| "timestamps c = []"

text \<open>Cancellations, constructions, method calls (made by \<open>draw\<close> only), flushes and queue
  calls.\<close>

fun is_cancel :: "call \<Rightarrow> bool" where
  "is_cancel (CancelAnimationFrame h) = True"
| "is_cancel c = False"

fun is_New :: "call \<Rightarrow> bool" where
  "is_New (New b as) = True"
| "is_New c = False"

fun is_Call :: "call \<Rightarrow> bool" where
  "is_Call (Call b m) = True"
| "is_Call c = False"

fun is_flush :: "call \<Rightarrow> bool" where
  "is_flush (Call b flush) = True"
| "is_flush c = False"

fun is_queue :: "call \<Rightarrow> bool" where
  "is_queue (Call b queueBorders) = True"
| "is_queue (Call b queueSelectedRangeRing) = True"
| "is_queue (Call b queueSelectedRect) = True"
| "is_queue (Call b queueHoveringRect) = True"
| "is_queue (Call b queueMousePath) = True"
| "is_queue (Call b queueVoyages) = True"
| "is_queue (Call b queueWormholes) = True"
| "is_queue (Call b (queuePlanets l t)) = True"
| "is_queue c = False"

subsection \<open>The invariant between callbacks\<close>

text \<open>
  Between callbacks the scheduler and the store agree: request ids are distinct and were
  all handed out already, every pending callback runs the loop of an allocated renderer
  whose \<open>frameRequestId\<close> is that very request, and the active instance, if any, has a
  pending callback.
\<close>

definition sched_ok :: "world \<Rightarrow> bool" where
  "sched_ok w \<longleftrightarrow>
     distinct (map fst (scheduled w)) \<and>
     list_all (\<lambda>(h, r). h < next_request w \<and> r < length (objs w) \<and>
                 frameRequestId (objs w ! r) = Some h) (scheduled w)"

definition consistent :: "world \<Rightarrow> bool" where
  "consistent w \<longleftrightarrow>
     sched_ok w \<and>
     (case Renderer_instance w of None \<Rightarrow> True | Some r \<Rightarrow> r \<in> snd ` set (scheduled w))"

text \<open>
  No method call of the trace was made while some renderer in the store had frame
  counter 0 (the record of what was seen runs parallel to the trace).
\<close>

definition never_zero :: "world \<Rightarrow> bool" where
  "never_zero w \<longleftrightarrow>
     length (seen w) = length (trace w) \<and>
     list_all (\<lambda>(c, s). is_Call c \<longrightarrow> list_all (\<lambda>n. 0 < n) s) (zip (trace w) (seen w))"

text \<open>The worlds a run can be in between callbacks.\<close>

inductive reachable :: "env \<Rightarrow> world \<Rightarrow> bool" for E :: env where
  start: "reachable E world0"
| init: "reachable E w \<Longrightarrow> reachable E (snd (initialize E cv gl buf g w))"
| dest: "reachable E w \<Longrightarrow> reachable E (destroy w)"
| tick: "reachable E w \<Longrightarrow> reachable E (fire E h w)"

subsection \<open>The batchers behind the flush calls\<close>

text \<open>
  The primitive batchers and the planet manager's batch are classes of this repository
  whose code is not in \<open>Renderer.ts\<close>. What a flush puts on the screen is taken from the
  specification's contract for them (section 4.2): \<open>queue\<close> appends a draw command to the
  batcher's pending batch; \<open>flush\<close> submits the whole pending batch in queue order, in one
  operation, and empties it. A batcher is named by the object that is flushed. Commands
  are of an arbitrary type \<open>'c\<close>; what is submitted later is drawn on top.
\<close>

text \<open>Modelled from the spec: the pending batch of every batcher, and everything
  submitted to the graphics context so far, oldest first (the code of the batchers is
  missing from the sources).\<close>

record 'c batches =
  pending :: "obj \<Rightarrow> 'c list"
  submitted :: "(obj \<times> 'c) list"

text \<open>Modelled from the spec: \<open>queue\<close> of a batcher, missing from the sources; it appends
  the command to that batcher's pending batch.\<close>

definition queue_cmd :: "obj \<times> 'c \<Rightarrow> 'c batches \<Rightarrow> 'c batches" where
  "queue_cmd bx s = s\<lparr>pending := (pending s)(fst bx := pending s (fst bx) @ [snd bx])\<rparr>"

text \<open>Modelled from the spec: \<open>flush\<close> of a batcher, missing from the sources; it submits
  the pending batch in queue order and empties it (nothing is submitted for an empty
  batch).\<close>

definition flush_batch :: "obj \<Rightarrow> 'c batches \<Rightarrow> 'c batches" where
  "flush_batch b s =
     s\<lparr>submitted := submitted s @ map (Pair b) (pending s b), pending := (pending s)(b := [])\<rparr>"

text \<open>Modelled from the spec: what a call of the frame does to the batchers. A flush call
  flushes its receiver; any other call queues the commands \<open>em\<close> gives for it, in order
  (the managers' queue methods are missing from the sources, so \<open>em\<close> is arbitrary: which
  batchers a call queues into, and what, is not fixed).\<close>

fun perform :: "(call \<Rightarrow> (obj \<times> 'c) list) \<Rightarrow> call \<Rightarrow> 'c batches \<Rightarrow> 'c batches" where
  "perform em (Call b flush) s = flush_batch b s"
| "perform em c s = fold queue_cmd (em c) s"

text \<open>Modelled from the spec: the batchers at the start of a frame, all empty (no command
  is left over from the frame before).\<close>

definition no_batches :: "'c batches" where
  "no_batches = \<lparr>pending = (\<lambda>b. []), submitted = []\<rparr>"

text \<open>The commands the calls \<open>cs\<close> queue into batcher \<open>b\<close>, in queue order.\<close>

definition queued_for :: "(call \<Rightarrow> (obj \<times> 'c) list) \<Rightarrow> call list \<Rightarrow> obj \<Rightarrow> 'c list" where
  "queued_for em cs b = map snd (filter (\<lambda>bx. fst bx = b) (concat (map em cs)))"

subsection \<open>Examples\<close>

text \<open>
  Two example environments: the clock reads 1000 plus the number of calls made so far,
  the snapshot is fixed; \<open>env0\<close> exposes plugin manager 9, \<open>env1\<close> exposes none.
  \<open>world1\<close> is the world after a first \<open>initialize\<close>.
\<close>

definition env0 :: env where
  "env0 = \<lparr>Date_now_result = (\<lambda>h. 1000 + int (length h)),
           getLocationsAndChunks_result = (\<lambda>h. ([4, 5], [6])),
           getPluginManager_result = (\<lambda>h. Some 9)\<rparr>"

definition env1 :: env where
  "env1 = env0\<lparr>getPluginManager_result := (\<lambda>h. None)\<rparr>"

definition world1 :: world where
  "world1 = snd (initialize env0 1 2 3 7 world0)"

text \<open>An example of what the queue calls of renderer 0 queue.\<close>

definition em0 :: "call \<Rightarrow> (obj \<times> nat) list" where
  "em0 c = (case c of
      Call b queueBorders \<Rightarrow> [(lineRenderer 0, 1)]
    | Call b queueVoyages \<Rightarrow> [(circleRenderer 0, 2), (lineRenderer 0, 3)]
    | Call b (queuePlanets l t) \<Rightarrow> [(spriteRenderer 0, 4), (planetRenderManager 0, 5), (textRenderer 0, 6)]
    | _ \<Rightarrow> [])"

section \<open>Basic facts\<close>

lemma ext_simps [simp]:
  "objs (ext c w) = objs w"
  "Renderer_instance (ext c w) = Renderer_instance w"
  "scheduled (ext c w) = scheduled w"
  "next_request (ext c w) = next_request w"
  "trace (ext c w) = trace w @ [c]"
  "seen (ext c w) = seen w @ [map frameCount (objs w)]"
  by (simp_all add: ext_def)

lemma assign_simps [simp]:
  "objs (assign this f w) = (objs w)[this := f (objs w ! this)]"
  "Renderer_instance (assign this f w) = Renderer_instance w"
  "scheduled (assign this f w) = scheduled w"
  "next_request (assign this f w) = next_request w"
  "trace (assign this f w) = trace w"
  "seen (assign this f w) = seen w"
  by (simp_all add: assign_def)

lemma calls_since_append: "trace w' = trace w @ cs \<Longrightarrow> calls_since w w' = cs"
  by (simp add: calls_since_def)

subsection \<open>The draw phase\<close>

lemma draw_frame [simp]:
  "objs (draw E this w) = objs w"
  "Renderer_instance (draw E this w) = Renderer_instance w"
  "scheduled (draw E this w) = scheduled w"
  "next_request (draw E this w) = next_request w"
  by (simp_all add: draw_def Let_def getLocationsAndChunks_of_def getPluginManager_of_def
        split: prod.split option.split)

lemma draw_trace:
  "trace (draw E this w) = trace w @
    (let g = gameUIManager (objs w ! this);
         pre = [Call (glManager this) setProjectionMatrix,
                Call (overlay2dRenderer this) clear,
                Call (glManager this) clear];
         snapshot = getLocationsAndChunks_result E (trace w @ pre);
         body = pre @
               [Call (GameUIManager g) getLocationsAndChunks,
                Call (bgRenderer this) (drawChunks (snd snapshot)),
                Call (uiRenderManager this) queueBorders,
                Call (uiRenderManager this) queueSelectedRangeRing,
                Call (uiRenderManager this) queueSelectedRect,
                Call (uiRenderManager this) queueHoveringRect,
                Call (uiRenderManager this) queueMousePath,
                Call (uiRenderManager this) drawMiner,
                Call (voyageRenderManager this) queueVoyages,
                Call (wormholeRenderManager this) queueWormholes,
                Call (planetRenderManager this)
                  (queuePlanets (fst snapshot) (now (objs w ! this))),
                Call (lineRenderer this) flush,
                Call (planetRenderManager this) flush,
                Call (circleRenderer this) flush,
                Call (rectRenderer this) flush,
                Call (textRenderer this) flush,
                Call (spriteRenderer this) flush]
     in body @ [Call (GameUIManager g) getPluginManager] @
        (case getPluginManager_result E (trace w @ body) of
           None \<Rightarrow> []
         | Some p \<Rightarrow> [Call (PluginManager p)
                        (drawAllRunningPlugins (ctx (overlay2dRenderer this)))]))"
  by (simp add: draw_def Let_def getLocationsAndChunks_of_def getPluginManager_of_def
        split: prod.split option.split)

lemma draw_extends: "trace (draw E this w) = trace w @ calls_since w (draw E this w)"
  by (simp add: calls_since_def draw_trace)

subsection \<open>The loop\<close>

lemma loop_unfold:
  "loop E this w =
     (let (h, w5) = requestAnimationFrame this (draw E this (entering E this w))
      in assign this (\<lambda>r. r\<lparr>frameRequestId := Some h\<rparr>) w5)"
  by (simp add: loop_def Let_def Date_now_def entering_def)

lemma entering_simps [simp]:
  "Renderer_instance (entering E this w) = Renderer_instance w"
  "scheduled (entering E this w) = scheduled w"
  "next_request (entering E this w) = next_request w"
  "trace (entering E this w) = trace w @ [DateNow]"
  "length (objs (entering E this w)) = length (objs w)"
  by (simp_all add: entering_def)

lemma entering_objs:
  "this < length (objs w) \<Longrightarrow>
   objs (entering E this w) =
     (objs w)[this := (objs w ! this)
        \<lparr>frameCount := frameCount (objs w ! this) + 1, now := Date_now_result E (trace w)\<rparr>]"
  by (simp add: entering_def)

lemma loop_frame [simp]:
  "Renderer_instance (loop E this w) = Renderer_instance w"
  "scheduled (loop E this w) = scheduled w @ [(next_request w, this)]"
  "next_request (loop E this w) = next_request w + 1"
  "length (objs (loop E this w)) = length (objs w)"
  by (simp_all add: loop_unfold Let_def requestAnimationFrame_def)

lemma loop_objs:
  "this < length (objs w) \<Longrightarrow>
   objs (loop E this w) =
     (objs w)[this := (objs w ! this)
        \<lparr>frameCount := frameCount (objs w ! this) + 1,
         now := Date_now_result E (trace w),
         frameRequestId := Some (next_request w)\<rparr>]"
  by (simp add: loop_unfold Let_def requestAnimationFrame_def entering_objs)

lemma loop_trace:
  "trace (loop E this w) =
     trace w @ DateNow # calls_since (entering E this w) (draw E this (entering E this w)) @
       [RequestAnimationFrame this]"
  by (simp add: loop_unfold Let_def requestAnimationFrame_def draw_extends)

subsection \<open>Construction\<close>

lemma setup_frame [simp]:
  "Renderer_instance (Renderer_setup E this w) = Renderer_instance w"
  "scheduled (Renderer_setup E this w) = scheduled w @ [(next_request w, this)]"
  "next_request (Renderer_setup E this w) = next_request w + 1"
  "length (objs (Renderer_setup E this w)) = length (objs w)"
  by (simp_all add: Renderer_setup_def Let_def)

lemma setup_unfold:
  "Renderer_setup E this w = loop E this (constructed this (bufferCanvas (objs w ! this)) w)"
  by (simp add: Renderer_setup_def Let_def constructed_def)

lemma sched_ok_loop:
  assumes "sched_ok w" "this < length (objs w)" "this \<notin> snd ` set (scheduled w)"
  shows "sched_ok (loop E this w)"
  using assms
  by (force simp: sched_ok_def loop_objs list_all_iff nth_list_update)

lemma consistent_world0: "consistent world0"
  by (simp add: consistent_def sched_ok_def world0_def)

lemma consistent_destroy: "consistent w \<Longrightarrow> consistent (destroy w)"
  by (auto simp: consistent_def sched_ok_def destroy_def cancelAnimationFrame_def list_all_iff
        distinct_map_filter split: option.splits)


lemma constructed_simps [simp]:
  "objs (constructed this buf w) = objs w"
  "Renderer_instance (constructed this buf w) = Renderer_instance w"
  "scheduled (constructed this buf w) = scheduled w"
  "next_request (constructed this buf w) = next_request w"
  "trace (constructed this buf w) = trace w @
     [New (bgRenderer this) [Aobj (glManager this)],
      New (planetRenderer this) [Aobj (glManager this)],
      New (asteroidRenderer this) [Aobj (glManager this)],
      New (beltRenderer this) [Aobj (glManager this)],
      New (mineRenderer this) [Aobj (glManager this)],
      New (spriteRenderer this) [Aobj (glManager this), Abool True, Abool True],
      New (quasarRenderer this) [Aobj (glManager this)],
      New (spacetimeRipRenderer this) [Aobj (glManager this)],
      New (ruinsRenderer this) [Aobj (glManager this)],
      New (ringRenderer this) [Aobj (glManager this)],
      New (blackDomainRenderer this) [Aobj (glManager this)],
      New (lineRenderer this) [Aobj (glManager this)],
      New (circleRenderer this) [Aobj (glManager this)],
      New (rectRenderer this) [Aobj (glManager this)],
      New (textRenderer this) [Aobj (glManager this), Acanvas buf],
      New (voyageRenderManager this) [Athis this],
      New (wormholeRenderManager this) [Athis this],
      New (planetRenderManager this) [Athis this],
      New (uiRenderManager this) [Athis this]]"
  by (simp_all add: constructed_def)

lemma new_before_loop:
  "Renderer_new E cv gl buf g w =
     (length (objs w), loop E (length (objs w)) (before_loop E cv gl buf g w))"
  by (simp add: Renderer_new_def Let_def Date_now_def setup_unfold before_loop_def)

lemma before_loop_simps [simp]:
  "Renderer_instance (before_loop E cv gl buf g w) = Renderer_instance w"
  "scheduled (before_loop E cv gl buf g w) = scheduled w"
  "next_request (before_loop E cv gl buf g w) = next_request w"
  "objs (before_loop E cv gl buf g w) = objs w @
     [\<lparr>canvas = cv, glCanvas = gl, bufferCanvas = buf, frameRequestId = None,
       gameUIManager = g, frameCount = 0,
       now = Date_now_result E (trace w @
         [New (glManager (length (objs w))) [Athis (length (objs w)), Acanvas gl],
          New (overlay2dRenderer (length (objs w))) [Athis (length (objs w)), Acanvas cv]])\<rparr>]"
  by (simp_all add: before_loop_def Let_def)

lemma before_loop_trace:
  "trace (before_loop E cv gl buf g w) = trace w @
     (let this = length (objs w) in
       [New (glManager this) [Athis this, Acanvas gl],
        New (overlay2dRenderer this) [Athis this, Acanvas cv],
        DateNow,
        AutoBind this,
        New (bgRenderer this) [Aobj (glManager this)],
        New (planetRenderer this) [Aobj (glManager this)],
        New (asteroidRenderer this) [Aobj (glManager this)],
        New (beltRenderer this) [Aobj (glManager this)],
        New (mineRenderer this) [Aobj (glManager this)],
        New (spriteRenderer this) [Aobj (glManager this), Abool True, Abool True],
        New (quasarRenderer this) [Aobj (glManager this)],
        New (spacetimeRipRenderer this) [Aobj (glManager this)],
        New (ruinsRenderer this) [Aobj (glManager this)],
        New (ringRenderer this) [Aobj (glManager this)],
        New (blackDomainRenderer this) [Aobj (glManager this)],
        New (lineRenderer this) [Aobj (glManager this)],
        New (circleRenderer this) [Aobj (glManager this)],
        New (rectRenderer this) [Aobj (glManager this)],
        New (textRenderer this) [Aobj (glManager this), Acanvas buf],
        New (voyageRenderManager this) [Athis this],
        New (wormholeRenderManager this) [Athis this],
        New (planetRenderManager this) [Athis this],
        New (uiRenderManager this) [Athis this]])"
  by (simp add: before_loop_def Let_def)

lemma new_frame [simp]:
  "fst (Renderer_new E cv gl buf g w) = length (objs w)"
  "Renderer_instance (snd (Renderer_new E cv gl buf g w)) = Renderer_instance w"
  "scheduled (snd (Renderer_new E cv gl buf g w)) = scheduled w @ [(next_request w, length (objs w))]"
  "next_request (snd (Renderer_new E cv gl buf g w)) = next_request w + 1"
  "length (objs (snd (Renderer_new E cv gl buf g w))) = length (objs w) + 1"
  by (simp_all add: new_before_loop)

lemma new_objs:
  "objs (snd (Renderer_new E cv gl buf g w)) = objs w @
     [\<lparr>canvas = cv, glCanvas = gl, bufferCanvas = buf, frameRequestId = Some (next_request w),
       gameUIManager = g, frameCount = 1,
       now = Date_now_result E (trace (before_loop E cv gl buf g w))\<rparr>]"
  by (simp add: new_before_loop loop_objs)

lemma sched_ok_new: "sched_ok w \<Longrightarrow> sched_ok (snd (Renderer_new E cv gl buf g w))"
  by (force simp: sched_ok_def new_objs list_all_iff nth_append)

lemma initialize_unfold:
  "initialize E cv gl buf g w =
     (length (objs w), (snd (Renderer_new E cv gl buf g w))\<lparr>Renderer_instance := Some (length (objs w))\<rparr>)"
  by (simp add: initialize_def Let_def split: prod.split) (metis fst_conv new_frame(1))

lemma consistent_initialize: "consistent w \<Longrightarrow> consistent (snd (initialize E cv gl buf g w))"
  using sched_ok_new [of w E cv gl buf g]
  by (simp add: consistent_def initialize_unfold sched_ok_def)

lemma fire_unfold:
  "fire E h w =
    (case map_of (scheduled w) h of
       None \<Rightarrow> w
     | Some this \<Rightarrow> loop E this (w\<lparr>scheduled := filter (\<lambda>(i, r). i \<noteq> h) (scheduled w)\<rparr>))"
  by (simp add: fire_def)

lemma sched_ok_fire: "sched_ok w \<Longrightarrow> sched_ok (fire E h w)"
proof (cases "map_of (scheduled w) h")
  case None
  then show "sched_ok w \<Longrightarrow> sched_ok (fire E h w)" by (simp add: fire_def)
next
  case (Some this)
  assume ok: "sched_ok w"
  let ?w = "w\<lparr>scheduled := filter (\<lambda>(i, r). i \<noteq> h) (scheduled w)\<rparr>"
  from Some have mem: "(h, this) \<in> set (scheduled w)" by (rule map_of_SomeD)
  from ok have 1: "sched_ok ?w"
    by (auto simp: sched_ok_def list_all_iff distinct_map_filter)
  from ok mem have 2: "this < length (objs ?w)"
    by (auto simp: sched_ok_def list_all_iff)
  have 3: "this \<notin> snd ` set (scheduled ?w)"
  proof
    assume "this \<in> snd ` set (scheduled ?w)"
    then obtain i where i: "(i, this) \<in> set (scheduled w)" "i \<noteq> h" by auto
    from ok i(1) have "frameRequestId (objs w ! this) = Some i"
      by (auto simp: sched_ok_def list_all_iff)
    moreover from ok mem have "frameRequestId (objs w ! this) = Some h"
      by (auto simp: sched_ok_def list_all_iff)
    ultimately show False using i(2) by simp
  qed
  from sched_ok_loop [OF 1 2 3] Some show "sched_ok (fire E h w)"
    by (simp add: fire_def)
qed

lemma consistent_fire:
  assumes "consistent w"
  shows "consistent (fire E h w)"
proof -
  from assms have ok: "sched_ok w" by (simp add: consistent_def)
  have "r \<in> snd ` set (scheduled (fire E h w))"
    if act: "Renderer_instance w = Some r" for r
  proof -
    from assms act obtain i where i: "(i, r) \<in> set (scheduled w)"
      by (auto simp: consistent_def)
    show ?thesis
    proof (cases "map_of (scheduled w) h")
      case None
      with i show ?thesis by (force simp: fire_def)
    next
      case (Some this)
      then have mem: "(h, this) \<in> set (scheduled w)" by (rule map_of_SomeD)
      show ?thesis
      proof (cases "r = this")
        case True
        with Some show ?thesis by (simp add: fire_def)
      next
        case False
        from ok have "distinct (map fst (scheduled w))" by (simp add: sched_ok_def)
        with i mem False have "i \<noteq> h" by (auto dest: eq_key_imp_eq_value)
        with i Some show ?thesis by (force simp: fire_def)
      qed
    qed
  qed
  moreover have "Renderer_instance (fire E h w) = Renderer_instance w"
    by (simp add: fire_def split: option.split)
  ultimately show ?thesis
    using sched_ok_fire [OF ok, of E h] by (simp add: consistent_def split: option.split)
qed

lemma reachable_consistent: "reachable E w \<Longrightarrow> consistent w"
  by (induction rule: reachable.induct)
     (simp_all add: consistent_world0 consistent_initialize consistent_destroy consistent_fire)

subsection \<open>The example world\<close>

lemma env0_simps [simp]:
  "Date_now_result env0 h = 1000 + int (length h)"
  "getLocationsAndChunks_result env0 h = ([4, 5], [6])"
  "getPluginManager_result env0 h = Some 9"
  by (simp_all add: env0_def)

lemma env1_simps [simp]:
  "Date_now_result env1 h = 1000 + int (length h)"
  "getLocationsAndChunks_result env1 h = ([4, 5], [6])"
  "getPluginManager_result env1 h = None"
  by (simp_all add: env1_def env0_def)

lemma draw_calls:
  "calls_since w (draw E this w) =
    (let g = gameUIManager (objs w ! this);
         pre = [Call (glManager this) setProjectionMatrix,
                Call (overlay2dRenderer this) clear,
                Call (glManager this) clear];
         snapshot = getLocationsAndChunks_result E (trace w @ pre);
         body = pre @
               [Call (GameUIManager g) getLocationsAndChunks,
                Call (bgRenderer this) (drawChunks (snd snapshot)),
                Call (uiRenderManager this) queueBorders,
                Call (uiRenderManager this) queueSelectedRangeRing,
                Call (uiRenderManager this) queueSelectedRect,
                Call (uiRenderManager this) queueHoveringRect,
                Call (uiRenderManager this) queueMousePath,
                Call (uiRenderManager this) drawMiner,
                Call (voyageRenderManager this) queueVoyages,
                Call (wormholeRenderManager this) queueWormholes,
                Call (planetRenderManager this)
                  (queuePlanets (fst snapshot) (now (objs w ! this))),
                Call (lineRenderer this) flush,
                Call (planetRenderManager this) flush,
                Call (circleRenderer this) flush,
                Call (rectRenderer this) flush,
                Call (textRenderer this) flush,
                Call (spriteRenderer this) flush]
     in body @ [Call (GameUIManager g) getPluginManager] @
        (case getPluginManager_result E (trace w @ body) of
           None \<Rightarrow> []
         | Some p \<Rightarrow> [Call (PluginManager p)
                        (drawAllRunningPlugins (ctx (overlay2dRenderer this)))]))"
  by (rule calls_since_append) (rule draw_trace)

lemma world1_objs [simp]:
  "objs world1 =
     [\<lparr>canvas = 1, glCanvas = 2, bufferCanvas = 3, frameRequestId = Some 1,
       gameUIManager = 7, frameCount = 1, now = 1023\<rparr>]"
  by (simp add: world1_def initialize_unfold new_objs before_loop_trace world0_def)

lemma world1_simps [simp]:
  "Renderer_instance world1 = Some 0"
  "scheduled world1 = [(1, 0)]"
  "next_request world1 = 2"
  by (simp_all add: world1_def initialize_unfold world0_def)

lemma world1_trace [simp]: "length (trace world1) = 47"
  by (simp add: world1_def initialize_unfold new_before_loop before_loop_trace loop_trace
        draw_calls Let_def world0_def)

lemma rem_zero_iff: "i \<noteq> 0 \<Longrightarrow> (sgn a * (\<bar>a\<bar> mod \<bar>i\<bar>) = 0) = (a mod i = (0::int))"
  by (auto simp: mod_eq_0_iff_dvd sgn_if)

lemma consistent_world1: "consistent world1"
  unfolding world1_def by (rule consistent_initialize [OF consistent_world0])

lemma reachable_world1: "reachable env0 world1"
  unfolding world1_def by (rule reachable.init [OF reachable.start])

subsection \<open>What a frame does not call\<close>

lemma draw_calls_no_cancel: "filter is_cancel (calls_since w (draw E this w)) = []"
  by (simp add: draw_calls Let_def split: option.split)

lemma draw_calls_no_New: "filter is_New (calls_since w (draw E this w)) = []"
  by (simp add: draw_calls Let_def split: option.split)

lemma draw_calls_no_raf:
  "filter (\<lambda>c. c = RequestAnimationFrame r) (calls_since w (draw E this w)) = []"
  by (simp add: draw_calls Let_def split: option.split)

subsection \<open>A renderer without a pending callback never runs again\<close>

lemma fire_not_scheduled:
  assumes "sched_ok w" "r \<notin> snd ` set (scheduled w)"
  shows "r \<notin> snd ` set (scheduled (fire E h w)) \<and> objs (fire E h w) ! r = objs w ! r"
proof (cases "map_of (scheduled w) h")
  case None
  with assms show ?thesis by (simp add: fire_def)
next
  case (Some this)
  then have mem: "(h, this) \<in> set (scheduled w)" by (rule map_of_SomeD)
  with assms(2) have ne: "this \<noteq> r" by force
  from assms(1) mem have "this < length (objs w)" by (auto simp: sched_ok_def list_all_iff)
  with Some ne assms(2) show ?thesis
    by (auto simp: fire_def loop_objs)
qed

lemma fold_fire_not_scheduled:
  "sched_ok w \<Longrightarrow> r \<notin> snd ` set (scheduled w) \<Longrightarrow>
   objs (fold (fire E) hs w) ! r = objs w ! r"
proof (induction hs arbitrary: w)
  case Nil
  then show ?case by simp
next
  case (Cons h hs)
  from fire_not_scheduled [OF Cons.prems, of E h] sched_ok_fire [OF Cons.prems(1), of E h]
  show ?case using Cons.IH [of "fire E h w"] by simp
qed

text \<open>A pending callback, fired, runs one more iteration of its renderer's loop.\<close>

lemma fire_scheduled:
  assumes "sched_ok w" "(h, r) \<in> set (scheduled w)"
  shows "frameCount (objs (fire E h w) ! r) = frameCount (objs w ! r) + 1"
proof -
  from assms(1) have "distinct (map fst (scheduled w))" by (simp add: sched_ok_def)
  with assms(2) have "map_of (scheduled w) h = Some r" by simp
  moreover from assms have "r < length (objs w)" by (auto simp: sched_ok_def list_all_iff)
  ultimately show ?thesis by (simp add: fire_def loop_objs)
qed

subsection \<open>Frame counters are positive\<close>

lemma frames_positive_loop:
  "this < length (objs w) \<Longrightarrow> list_all (\<lambda>r. 0 < frameCount r) (objs w) \<Longrightarrow>
   list_all (\<lambda>r. 0 < frameCount r) (objs (loop E this w))"
  by (auto simp: loop_objs list_all_iff dest!: set_update_subset_insert [THEN subsetD])

lemma frames_positive:
  "reachable E w \<Longrightarrow> list_all (\<lambda>r. 0 < frameCount r) (objs w)"
proof (induction rule: reachable.induct)
  case start
  show ?case by (simp add: world0_def)
next
  case (init w cv gl buf g)
  then show ?case by (simp add: initialize_unfold new_objs)
next
  case (dest w)
  then show ?case by (simp add: destroy_def cancelAnimationFrame_def split: option.split)
next
  case (tick w h)
  show ?case
  proof (cases "map_of (scheduled w) h")
    case None
    with tick.IH show ?thesis by (simp add: fire_def)
  next
    case (Some this)
    then have mem: "(h, this) \<in> set (scheduled w)" by (rule map_of_SomeD)
    from reachable_consistent [OF tick.hyps] mem have "this < length (objs w)"
      by (auto simp: consistent_def sched_ok_def list_all_iff)
    with tick.IH Some show ?thesis by (simp add: fire_def frames_positive_loop)
  qed
qed

subsection \<open>The constructor, up to the start of the loop\<close>

lemma loop_extends: "trace (loop E this w) = trace w @ calls_since w (loop E this w)"
  by (simp add: calls_since_def loop_trace)

lemma initialize_no_cancel:
  "filter is_cancel (calls_since w (snd (initialize E cv gl buf g w))) = []"
proof -
  have "trace (snd (initialize E cv gl buf g w)) =
      trace w @ calls_since w (before_loop E cv gl buf g w) @
        calls_since (before_loop E cv gl buf g w)
          (loop E (length (objs w)) (before_loop E cv gl buf g w))"
    by (simp add: initialize_unfold new_before_loop calls_since_append [OF before_loop_trace]
          calls_since_append [OF loop_trace] loop_trace before_loop_trace)
  then show ?thesis
    by (simp add: calls_since_append calls_since_append [OF before_loop_trace]
          calls_since_append [OF loop_trace] draw_calls_no_cancel Let_def)
qed

subsection \<open>Destroying\<close>

lemma destroy_simps [simp]:
  "Renderer_instance (destroy w) = None"
  "objs (destroy w) = objs w"
  "next_request (destroy w) = next_request w"
  by (simp_all add: destroy_def cancelAnimationFrame_def split: option.split)

lemma destroy_none: "Renderer_instance w = None \<Longrightarrow> destroy w = w"
  by (simp add: destroy_def)

lemma destroy_some:
  "Renderer_instance w = Some r \<Longrightarrow>
   trace (destroy w) = trace w @ [CancelAnimationFrame (frameRequestId (objs w ! r))] \<and>
   scheduled (destroy w) =
     filter (\<lambda>(i, r'). Some i \<noteq> frameRequestId (objs w ! r)) (scheduled w)"
  by (simp add: destroy_def cancelAnimationFrame_def)

lemma destroy_twice: "destroy (destroy w) = destroy w"
  by (simp add: destroy_none)

lemma active_request:
  assumes "consistent w" "Renderer_instance w = Some r"
  shows "\<exists>h. frameRequestId (objs w ! r) = Some h \<and> (h, r) \<in> set (scheduled w) \<and>
             r < length (objs w)"
  using assms by (force simp: consistent_def sched_ok_def list_all_iff)

lemma cancel_own_request:
  assumes "sched_ok w" "(h, r) \<in> set (scheduled w)"
  shows "filter (\<lambda>(i, r'). Some i \<noteq> Some h) (scheduled w) =
         filter (\<lambda>e. e \<noteq> (h, r)) (scheduled w)"
proof (rule filter_cong [OF refl])
  fix e assume e: "e \<in> set (scheduled w)"
  from assms(1) have "distinct (map fst (scheduled w))" by (simp add: sched_ok_def)
  then have "r' = r" if "(h, r') \<in> set (scheduled w)" for r'
    using that assms(2) by (rule eq_key_imp_eq_value)
  with e show "(case e of (i, r') \<Rightarrow> Some i \<noteq> Some h) = (e \<noteq> (h, r))"
    by (cases e) auto
qed

subsection \<open>What the calls see of the frame counters\<close>

lemma draw_seen:
  "seen (draw E this w) =
     seen w @ map (\<lambda>c. map frameCount (objs w)) (calls_since w (draw E this w))"
  by (simp add: draw_calls Let_def split: option.split)
     (simp add: draw_def Let_def getLocationsAndChunks_of_def getPluginManager_of_def
        split: prod.split option.split)

lemma seen_since_append: "seen w' = seen w @ ss \<Longrightarrow> seen_since w w' = ss"
  by (simp add: seen_since_def)

lemma entering_seen [simp]:
  "seen (entering E this w) =
     seen w @ [map frameCount ((objs w)[this := (objs w ! this)\<lparr>frameCount := frameCount (objs w ! this) + 1\<rparr>])]"
  by (simp add: entering_def)

lemma loop_seen:
  "this < length (objs w) \<Longrightarrow>
   seen (loop E this w) =
     seen w @ map (\<lambda>c. (map frameCount (objs w))[this := frameCount (objs w ! this) + 1])
                (calls_since w (loop E this w))"
  unfolding calls_since_append [OF loop_trace]
  by (simp add: loop_unfold Let_def requestAnimationFrame_def draw_seen entering_objs map_update)

lemma before_loop_seen:
  "seen (before_loop E cv gl buf g w) =
     seen w @ replicate 3 (map frameCount (objs w)) @
       replicate 20 (map frameCount (objs w) @ [0])"
  by (simp add: before_loop_def Let_def constructed_def eval_nat_numeral)


lemma destroy_seen_length:
  "length (seen (destroy w)) - length (seen w) = length (trace (destroy w)) - length (trace w)"
  by (simp add: destroy_def cancelAnimationFrame_def split: option.split)

lemma never_zero_extend:
  assumes "never_zero w" "trace w' = trace w @ cs" "seen w' = seen w @ ss"
    "length ss = length cs"
    "list_all (\<lambda>(c, s). is_Call c \<longrightarrow> list_all (\<lambda>n. 0 < n) s) (zip cs ss)"
  shows "never_zero w'"
  using assms by (simp add: never_zero_def)

lemma never_zero_loop:
  assumes "never_zero w" "this < length (objs w)"
    "list_all (\<lambda>n. 0 < n) ((map frameCount (objs w))[this := frameCount (objs w ! this) + 1])"
  shows "never_zero (loop E this w)"
proof (rule never_zero_extend [OF assms(1) loop_extends loop_seen [OF assms(2)]])
  let ?S = "(map frameCount (objs w))[this := frameCount (objs w ! this) + 1]"
  from assms(3) show "list_all (\<lambda>(c, s). is_Call c \<longrightarrow> list_all (\<lambda>n. 0 < n) s)
     (zip (calls_since w (loop E this w)) (map (\<lambda>c. ?S) (calls_since w (loop E this w))))"
    by (auto simp: list_all_iff zip_map2 set_zip)
qed simp

lemma positive_update:
  "list_all (\<lambda>r. 0 < frameCount r) xs \<Longrightarrow>
   list_all (\<lambda>n. 0 < n) ((map frameCount xs)[i := frameCount (xs ! i) + 1])"
  by (auto simp: list_all_iff dest!: set_update_subset_insert [THEN subsetD])

lemma never_zero_destroy: "never_zero w \<Longrightarrow> never_zero (destroy w)"
  by (simp add: never_zero_def destroy_def cancelAnimationFrame_def split: option.split)

lemma before_loop_extends:
  "trace (before_loop E cv gl buf g w) = trace w @ calls_since w (before_loop E cv gl buf g w)"
  by (simp add: calls_since_def before_loop_trace)

lemma never_zero_before_loop: "never_zero w \<Longrightarrow> never_zero (before_loop E cv gl buf g w)"
  by (simp add: never_zero_def before_loop_trace before_loop_seen Let_def eval_nat_numeral)

lemma never_zero_initialize:
  assumes "never_zero w" "list_all (\<lambda>r. 0 < frameCount r) (objs w)"
  shows "never_zero (snd (initialize E cv gl buf g w))"
proof -
  have "(map frameCount (objs w) @ [0])[length (objs w) := Suc 0] =
      map frameCount (objs w) @ [Suc 0]"
    using list_update_length [of "map frameCount (objs w)" 0 "[]" "Suc 0"] by simp
  then have "never_zero (loop E (length (objs w)) (before_loop E cv gl buf g w))"
    by (intro never_zero_loop [OF never_zero_before_loop [OF assms(1)]])
       (use assms(2) in \<open>simp_all add: list_all_iff\<close>)
  then show ?thesis by (simp add: initialize_unfold new_before_loop never_zero_def)
qed

lemma never_zero_reachable: "reachable E w \<Longrightarrow> never_zero w"
proof (induction rule: reachable.induct)
  case start
  show ?case by (simp add: never_zero_def world0_def)
next
  case (init w cv gl buf g)
  with frames_positive [OF init.hyps] show ?case by (simp add: never_zero_initialize)
next
  case (dest w)
  then show ?case by (simp add: never_zero_destroy)
next
  case (tick w h)
  show ?case
  proof (cases "map_of (scheduled w) h")
    case None
    with tick.IH show ?thesis by (simp add: fire_def)
  next
    case (Some this)
    then have mem: "(h, this) \<in> set (scheduled w)" by (rule map_of_SomeD)
    from reachable_consistent [OF tick.hyps] mem have "this < length (objs w)"
      by (auto simp: consistent_def sched_ok_def list_all_iff)
    moreover from tick.IH
    have "never_zero (w\<lparr>scheduled := filter (\<lambda>(i, r). i \<noteq> h) (scheduled w)\<rparr>)"
      by (simp add: never_zero_def)
    ultimately show ?thesis
      using Some positive_update [OF frames_positive [OF tick.hyps], of this]
      by (simp add: fire_def never_zero_loop)
  qed
qed

lemma initialize_calls:
  "calls_since w (snd (initialize E cv gl buf g w)) =
     calls_since w (before_loop E cv gl buf g w) @
     calls_since (before_loop E cv gl buf g w)
       (loop E (length (objs w)) (before_loop E cv gl buf g w))"
  by (rule calls_since_append)
     (simp add: initialize_unfold new_before_loop calls_since_append [OF before_loop_trace]
        calls_since_append [OF loop_trace] loop_trace before_loop_trace)

lemma before_loop_calls_length: "length (calls_since w (before_loop E cv gl buf g w)) = 23"
  by (simp add: calls_since_append [OF before_loop_trace] Let_def)

lemma initialize_seen:
  "seen_since w (snd (initialize E cv gl buf g w)) =
     replicate 3 (map frameCount (objs w)) @
     replicate 20 (map frameCount (objs w) @ [0]) @
     replicate (length (calls_since w (snd (initialize E cv gl buf g w))) - 23)
       (map frameCount (objs w) @ [1])"
proof -
  let ?wb = "before_loop E cv gl buf g w"
  have u: "(map frameCount (objs w) @ [0])[length (objs w) := Suc 0] =
      map frameCount (objs w) @ [Suc 0]"
    using list_update_length [of "map frameCount (objs w)" 0 "[]" "Suc 0"] by simp
  have "seen (snd (initialize E cv gl buf g w)) = seen (loop E (length (objs w)) ?wb)"
    by (simp add: initialize_unfold new_before_loop)
  also have "\<dots> = seen ?wb @
      replicate (length (calls_since ?wb (loop E (length (objs w)) ?wb)))
        (map frameCount (objs w) @ [1])"
    using loop_seen [of "length (objs w)" ?wb E] u by (simp add: map_replicate_const)
  finally show ?thesis
    by (intro seen_since_append)
       (simp add: before_loop_seen initialize_calls before_loop_calls_length)
qed

lemma world1_seen: "seen world1 = replicate 3 [] @ replicate 20 [0] @ replicate 24 [1]"
proof -
  let ?wb = "before_loop env0 1 2 3 7 world0"
  have n: "length (calls_since ?wb (loop env0 0 ?wb)) = 24"
    by (simp add: calls_since_append [OF loop_trace] draw_calls Let_def)
  have "seen world1 = seen (loop env0 0 ?wb)"
    by (simp add: world1_def initialize_unfold new_before_loop world0_def)
  also have "\<dots> = seen ?wb @ replicate 24 [1]"
    using loop_seen [of 0 ?wb env0] n by (simp add: world0_def map_replicate_const)
  finally show ?thesis by (simp add: before_loop_seen world0_def)
qed

subsection \<open>Queueing and flushing\<close>

lemma fold_queue_cmd:
  "pending (fold queue_cmd xs s) b = pending s b @ map snd (filter (\<lambda>bx. fst bx = b) xs) \<and>
   submitted (fold queue_cmd xs s) = submitted s"
  by (induction xs arbitrary: s) (simp_all add: queue_cmd_def)

lemma perform_no_flush: "\<not> is_flush c \<Longrightarrow> perform em c s = fold queue_cmd (em c) s"
  by (induction c rule: is_flush.induct) simp_all

lemma run_queue:
  "list_all (\<lambda>c. \<not> is_flush c) cs \<Longrightarrow>
   pending (fold (perform em) cs s) b = pending s b @ queued_for em cs b \<and>
   submitted (fold (perform em) cs s) = submitted s"
  by (induction cs arbitrary: s)
     (simp_all add: queued_for_def perform_no_flush fold_queue_cmd)

lemma run_flushes:
  "submitted (fold (perform em)
      [Call (lineRenderer this) flush, Call (planetRenderManager this) flush,
       Call (circleRenderer this) flush, Call (rectRenderer this) flush,
       Call (textRenderer this) flush, Call (spriteRenderer this) flush] s) =
   submitted s @
     concat (map (\<lambda>b. map (Pair b) (pending s b))
       [lineRenderer this, planetRenderManager this, circleRenderer this,
        rectRenderer this, textRenderer this, spriteRenderer this])"
  by (simp add: flush_batch_def)

lemma stacking:
  assumes "list_all (\<lambda>c. \<not> is_flush c) qs" "list_all (\<lambda>c. \<not> is_flush c) rest"
  shows "submitted (fold (perform em)
      (qs @ [Call (lineRenderer this) flush, Call (planetRenderManager this) flush,
             Call (circleRenderer this) flush, Call (rectRenderer this) flush,
             Call (textRenderer this) flush, Call (spriteRenderer this) flush] @ rest)
      no_batches) =
     concat (map (\<lambda>b. map (Pair b) (queued_for em qs b))
       [lineRenderer this, planetRenderManager this, circleRenderer this,
        rectRenderer this, textRenderer this, spriteRenderer this])"
  using run_queue [OF assms(1), of em no_batches] run_queue [OF assms(2), of em]
  by (simp only: fold_append o_apply run_flushes) (simp add: no_batches_def)

lemma queued_for_mset:
  assumes "mset qs = mset qs'"
  shows "mset (queued_for em qs b) = mset (queued_for em qs' b)"
proof -
  have "mset (concat (map em qs)) = (\<Sum>c\<in>#mset qs. mset (em c))" for qs
    by (induction qs) simp_all
  with assms have "mset (concat (map em qs)) = mset (concat (map em qs'))" by simp
  then show ?thesis by (simp add: queued_for_def)
qed

lemma queued_for_length:
  "mset qs = mset qs' \<Longrightarrow> length (queued_for em qs b) = length (queued_for em qs' b)"
  by (rule mset_eq_length) (rule queued_for_mset)

lemma draw_calls_queue_phase:
  "takeWhile (\<lambda>c. \<not> is_flush c) (calls_since w (draw E this w)) =
     take 14 (calls_since w (draw E this w)) \<and>
   drop 14 (calls_since w (draw E this w)) =
     [Call (lineRenderer this) flush, Call (planetRenderManager this) flush,
      Call (circleRenderer this) flush, Call (rectRenderer this) flush,
      Call (textRenderer this) flush, Call (spriteRenderer this) flush] @
     drop 20 (calls_since w (draw E this w)) \<and>
   list_all (\<lambda>c. \<not> is_flush c) (take 14 (calls_since w (draw E this w))) \<and>
   list_all (\<lambda>c. \<not> is_flush c) (drop 20 (calls_since w (draw E this w))) \<and>
   filter is_queue (drop 14 (calls_since w (draw E this w))) = [] \<and>
   filter is_flush (calls_since w (draw E this w)) =
     [Call (lineRenderer this) flush, Call (planetRenderManager this) flush,
      Call (circleRenderer this) flush, Call (rectRenderer this) flush,
      Call (textRenderer this) flush, Call (spriteRenderer this) flush]"
  by (simp add: draw_calls Let_def split: option.split)

section \<open>The claims\<close>

text \<open>
  Claim C1. In every frame the flush calls are exactly six, in the fixed order line,
  planet manager, circle, rect, text, sprite; they come after everything the frame
  queues, and no queue call follows them. With the batchers as the specification
  describes them, what the frame submits is therefore stacked batcher by batcher in that
  flush order, whatever the calls before the first flush queue (\<open>em\<close>), and the stacking
  does not depend on the order of those calls: reissued in any order \<open>qs\<close>, they give the
  same sequence of layers with the same commands in each (only the order of the commands
  inside one layer follows the queue order).
\<close>

theorem flush_order_fixes_stacking:
  fixes em :: "call \<Rightarrow> (obj \<times> 'c) list"
  assumes "mset qs = mset (takeWhile (\<lambda>c. \<not> is_flush c) (calls_since w (draw E this w)))"
  shows
    "(let cs = calls_since w (draw E this w);
          queued = takeWhile (\<lambda>c. \<not> is_flush c) cs;
          order = [lineRenderer this, planetRenderManager this, circleRenderer this,
                   rectRenderer this, textRenderer this, spriteRenderer this];
          flushes = map (\<lambda>b. Call b flush) order;
          layers = (\<lambda>cs'. concat (map (\<lambda>b. map (Pair b) (queued_for em cs' b)) order))
      in filter is_flush cs = flushes \<and>
         cs = queued @ flushes @ drop 20 cs \<and>
         filter is_queue (flushes @ drop 20 cs) = [] \<and>
         submitted (fold (perform em) cs no_batches) = layers queued \<and>
         submitted (fold (perform em) (qs @ flushes) no_batches) = layers qs \<and>
         map fst (layers qs) = map fst (layers queued) \<and>
         mset (layers qs) = mset (layers queued))"
proof -
  let ?cs = "calls_since w (draw E this w)"
  let ?order = "[lineRenderer this, planetRenderManager this, circleRenderer this,
                   rectRenderer this, textRenderer this, spriteRenderer this]"
  let ?flushes = "map (\<lambda>b. Call b flush) ?order"
  let ?layers = "\<lambda>cs'. concat (map (\<lambda>b. map (Pair b) (queued_for em cs' b)) ?order)"
  note ph = draw_calls_queue_phase [of w E this]
  from ph have tw: "takeWhile (\<lambda>c. \<not> is_flush c) ?cs = take 14 ?cs" by blast
  from ph have d14: "drop 14 ?cs = ?flushes @ drop 20 ?cs" by simp
  have c2: "?cs = take 14 ?cs @ ?flushes @ drop 20 ?cs"
    using append_take_drop_id [of 14 ?cs] unfolding d14 by simp
  from ph have c1: "filter is_flush ?cs = ?flushes" by simp
  from ph have c3: "filter is_queue (?flushes @ drop 20 ?cs) = []"
    unfolding d14 by blast
  from ph have nf1: "list_all (\<lambda>c. \<not> is_flush c) (take 14 ?cs)"
    and nf2: "list_all (\<lambda>c. \<not> is_flush c) (drop 20 ?cs)" by blast+
  from assms tw have ms: "mset qs = mset (take 14 ?cs)" by simp
  then have "set qs = set (take 14 ?cs)" by (rule mset_eq_setD)
  with nf1 have nfq: "list_all (\<lambda>c. \<not> is_flush c) qs" by (simp add: list_all_iff)
  have "submitted (fold (perform em) (take 14 ?cs @ ?flushes @ drop 20 ?cs) no_batches) =
      ?layers (take 14 ?cs)"
    using stacking [OF nf1 nf2, of em this] by simp
  then have a: "submitted (fold (perform em) ?cs no_batches) = ?layers (take 14 ?cs)"
    unfolding c2 [symmetric] .
  have b: "submitted (fold (perform em) (qs @ ?flushes) no_batches) = ?layers qs"
    using stacking [OF nfq, of "[]" em this] by simp
  have c6: "map fst (?layers qs) = map fst (?layers (take 14 ?cs))"
    by (simp add: queued_for_length [OF ms] comp_def map_replicate_const)
  have c7: "mset (?layers qs) = mset (?layers (take 14 ?cs))"
    by (simp add: queued_for_mset [OF ms])
  from c1 c2 c3 a b c6 c7 show ?thesis
    unfolding Let_def tw by (intro conjI)
qed

text \<open>
  In the example world, with the calls before the first flush issued in reverse: the
  layers stay where they are, and the two commands of the line layer swap.
\<close>

theorem flush_order_fixes_stacking_witness:
  "mset (rev (take 14 (calls_since world1 (draw env0 0 world1)))) =
     mset (takeWhile (\<lambda>c. \<not> is_flush c) (calls_since world1 (draw env0 0 world1))) \<and>
   submitted (fold (perform em0) (calls_since world1 (draw env0 0 world1)) no_batches) =
     [(lineRenderer 0, 1), (lineRenderer 0, 3), (planetRenderManager 0, 5),
      (circleRenderer 0, 2), (textRenderer 0, 6), (spriteRenderer 0, 4)] \<and>
   submitted (fold (perform em0)
      (rev (take 14 (calls_since world1 (draw env0 0 world1))) @
       [Call (lineRenderer 0) flush, Call (planetRenderManager 0) flush,
        Call (circleRenderer 0) flush, Call (rectRenderer 0) flush,
        Call (textRenderer 0) flush, Call (spriteRenderer 0) flush]) no_batches) =
     [(lineRenderer 0, 3), (lineRenderer 0, 1), (planetRenderManager 0, 5),
      (circleRenderer 0, 2), (textRenderer 0, 6), (spriteRenderer 0, 4)]"
proof -
  have h: "mset (rev (take 14 (calls_since world1 (draw env0 0 world1)))) =
     mset (takeWhile (\<lambda>c. \<not> is_flush c) (calls_since world1 (draw env0 0 world1)))"
    using draw_calls_queue_phase [of world1 env0 0] by simp
  have q: "take 14 (calls_since world1 (draw env0 0 world1)) =
     [Call (glManager 0) setProjectionMatrix,
      Call (overlay2dRenderer 0) clear,
      Call (glManager 0) clear,
      Call (GameUIManager 7) getLocationsAndChunks,
      Call (bgRenderer 0) (drawChunks [6]),
      Call (uiRenderManager 0) queueBorders,
      Call (uiRenderManager 0) queueSelectedRangeRing,
      Call (uiRenderManager 0) queueSelectedRect,
      Call (uiRenderManager 0) queueHoveringRect,
      Call (uiRenderManager 0) queueMousePath,
      Call (uiRenderManager 0) drawMiner,
      Call (voyageRenderManager 0) queueVoyages,
      Call (wormholeRenderManager 0) queueWormholes,
      Call (planetRenderManager 0) (queuePlanets [4, 5] 1023)]"
    by (simp add: draw_calls Let_def)
  have tw: "takeWhile (\<lambda>c. \<not> is_flush c) (calls_since world1 (draw env0 0 world1)) =
     take 14 (calls_since world1 (draw env0 0 world1))"
    using draw_calls_queue_phase [of world1 env0 0] by blast
  show ?thesis
    using h flush_order_fixes_stacking [OF h, of em0]
    unfolding Let_def tw q
    by (simp add: queued_for_def em0_def del: fold_simps)
qed

text \<open>
  Claim C2. Every invocation of \<open>draw\<close> makes exactly these calls, in this order: set the
  projection matrix; clear the overlay, then the GL context; pull the snapshot from the
  state provider; draw the background chunks of the snapshot; queue borders, selected-range
  ring, selected rect, hovering rect and mouse path, then draw the miner; queue voyages;
  queue wormholes; queue planets with the snapshot's locations and the renderer's \<open>now\<close>;
  flush line, planet manager, circle, rect, text and sprite; ask for the plugin manager
  and, if there is one, have it draw the running plugins on the overlay's context.
  The store, the singleton and the scheduler are left as they were.
\<close>

theorem draw_sequence:
  "calls_since w (draw E this w) =
    (let g = gameUIManager (objs w ! this);
         pre = [Call (glManager this) setProjectionMatrix,
                Call (overlay2dRenderer this) clear,
                Call (glManager this) clear];
         snapshot = getLocationsAndChunks_result E (trace w @ pre);
         body = pre @
               [Call (GameUIManager g) getLocationsAndChunks,
                Call (bgRenderer this) (drawChunks (snd snapshot)),
                Call (uiRenderManager this) queueBorders,
                Call (uiRenderManager this) queueSelectedRangeRing,
                Call (uiRenderManager this) queueSelectedRect,
                Call (uiRenderManager this) queueHoveringRect,
                Call (uiRenderManager this) queueMousePath,
                Call (uiRenderManager this) drawMiner,
                Call (voyageRenderManager this) queueVoyages,
                Call (wormholeRenderManager this) queueWormholes,
                Call (planetRenderManager this)
                  (queuePlanets (fst snapshot) (now (objs w ! this))),
                Call (lineRenderer this) flush,
                Call (planetRenderManager this) flush,
                Call (circleRenderer this) flush,
                Call (rectRenderer this) flush,
                Call (textRenderer this) flush,
                Call (spriteRenderer this) flush]
     in body @ [Call (GameUIManager g) getPluginManager] @
        (case getPluginManager_result E (trace w @ body) of
           None \<Rightarrow> []
         | Some p \<Rightarrow> [Call (PluginManager p)
                        (drawAllRunningPlugins (ctx (overlay2dRenderer this)))])) \<and>
   trace (draw E this w) = trace w @ calls_since w (draw E this w) \<and>
   objs (draw E this w) = objs w \<and>
   Renderer_instance (draw E this w) = Renderer_instance w \<and>
   scheduled (draw E this w) = scheduled w \<and>
   next_request (draw E this w) = next_request w"
  using draw_calls [of w E this] draw_extends [of E this w] by simp

text \<open>The frame drawn for renderer 0 of the example world, with plugin manager 9.\<close>

theorem draw_sequence_witness:
  "calls_since world1 (draw env0 0 world1) =
     [Call (glManager 0) setProjectionMatrix,
      Call (overlay2dRenderer 0) clear,
      Call (glManager 0) clear,
      Call (GameUIManager 7) getLocationsAndChunks,
      Call (bgRenderer 0) (drawChunks [6]),
      Call (uiRenderManager 0) queueBorders,
      Call (uiRenderManager 0) queueSelectedRangeRing,
      Call (uiRenderManager 0) queueSelectedRect,
      Call (uiRenderManager 0) queueHoveringRect,
      Call (uiRenderManager 0) queueMousePath,
      Call (uiRenderManager 0) drawMiner,
      Call (voyageRenderManager 0) queueVoyages,
      Call (wormholeRenderManager 0) queueWormholes,
      Call (planetRenderManager 0) (queuePlanets [4, 5] 1023),
      Call (lineRenderer 0) flush,
      Call (planetRenderManager 0) flush,
      Call (circleRenderer 0) flush,
      Call (rectRenderer 0) flush,
      Call (textRenderer 0) flush,
      Call (spriteRenderer 0) flush,
      Call (GameUIManager 7) getPluginManager,
      Call (PluginManager 9) (drawAllRunningPlugins (ctx (overlay2dRenderer 0)))]"
  using draw_sequence [of world1 env0 0] by (simp add: Let_def)

text \<open>
  Claim C3, as the code has it. \<open>initialize\<close> runs the constructor and then assigns
  \<open>Renderer.instance\<close>; it returns the new object, and the singleton is that object. The
  constructor builds the graphics context manager and the overlay renderer first, then
  the entity renderers, then the primitives, then the managers (\<open>wb\<close> below is the world
  at that point: 23 calls, the object in the store with frame counter 0), and then runs
  the first iteration of the loop itself (\<open>w1\<close>): that iteration constructs nothing, ends
  by scheduling its successor, and leaves \<open>Renderer.instance\<close> as it was before
  \<open>initialize\<close>. So the loop starts before the instance is installed, not after.
\<close>

theorem initialize_order:
  "(let this = length (objs w);
        wb = before_loop E cv gl buf g w;
        w1 = loop E this wb
    in initialize E cv gl buf g w = (this, w1\<lparr>Renderer_instance := Some this\<rparr>) \<and>
       Renderer_new E cv gl buf g w = (this, w1) \<and>
       calls_since w wb =
         [New (glManager this) [Athis this, Acanvas gl],
          New (overlay2dRenderer this) [Athis this, Acanvas cv],
          DateNow,
          AutoBind this,
          New (bgRenderer this) [Aobj (glManager this)],
          New (planetRenderer this) [Aobj (glManager this)],
          New (asteroidRenderer this) [Aobj (glManager this)],
          New (beltRenderer this) [Aobj (glManager this)],
          New (mineRenderer this) [Aobj (glManager this)],
          New (spriteRenderer this) [Aobj (glManager this), Abool True, Abool True],
          New (quasarRenderer this) [Aobj (glManager this)],
          New (spacetimeRipRenderer this) [Aobj (glManager this)],
          New (ruinsRenderer this) [Aobj (glManager this)],
          New (ringRenderer this) [Aobj (glManager this)],
          New (blackDomainRenderer this) [Aobj (glManager this)],
          New (lineRenderer this) [Aobj (glManager this)],
          New (circleRenderer this) [Aobj (glManager this)],
          New (rectRenderer this) [Aobj (glManager this)],
          New (textRenderer this) [Aobj (glManager this), Acanvas buf],
          New (voyageRenderManager this) [Athis this],
          New (wormholeRenderManager this) [Athis this],
          New (planetRenderManager this) [Athis this],
          New (uiRenderManager this) [Athis this]] \<and>
       trace wb = trace w @ calls_since w wb \<and>
       scheduled wb = scheduled w \<and> next_request wb = next_request w \<and>
       Renderer_instance wb = Renderer_instance w \<and>
       objs wb = objs w @
         [\<lparr>canvas = cv, glCanvas = gl, bufferCanvas = buf, frameRequestId = None,
           gameUIManager = g, frameCount = 0,
           now = Date_now_result E (trace w @
             [New (glManager this) [Athis this, Acanvas gl],
              New (overlay2dRenderer this) [Athis this, Acanvas cv]])\<rparr>] \<and>
       filter is_New (calls_since wb w1) = [] \<and>
       last (trace w1) = RequestAnimationFrame this \<and>
       Renderer_instance w1 = Renderer_instance w \<and>
       frameCount (objs w1 ! this) = 1 \<and>
       scheduled w1 = scheduled w @ [(next_request w, this)] \<and>
       Renderer_instance (snd (initialize E cv gl buf g w)) = Some (fst (initialize E cv gl buf g w)))"
  by (simp add: Let_def initialize_unfold new_before_loop before_loop_trace
        calls_since_append [OF before_loop_trace] calls_since_append [OF loop_trace]
        draw_calls_no_New loop_objs loop_trace)

text \<open>
  The order of claim C3 fails in the first world: when the constructor returns, which is
  before \<open>initialize\<close> assigns \<open>Renderer.instance\<close>, the loop has already run frame 1 and
  scheduled the next iteration, and the singleton is not yet the new instance.
\<close>

theorem initialize_loop_before_install:
  "Renderer_instance (snd (Renderer_new env0 1 2 3 7 world0)) \<noteq>
     Some (fst (Renderer_new env0 1 2 3 7 world0)) \<and>
   last (trace (snd (Renderer_new env0 1 2 3 7 world0))) = RequestAnimationFrame 0 \<and>
   frameCount (objs (snd (Renderer_new env0 1 2 3 7 world0)) ! 0) = 1 \<and>
   scheduled (snd (Renderer_new env0 1 2 3 7 world0)) = [(1, 0)] \<and>
   initialize env0 1 2 3 7 world0 =
     (0, (snd (Renderer_new env0 1 2 3 7 world0))\<lparr>Renderer_instance := Some 0\<rparr>)"
  by (simp add: initialize_unfold new_objs world0_def)
     (simp add: new_before_loop loop_trace)

text \<open>
  Claim C4, as the code has it. In every world: without an active instance \<open>destroy\<close>
  changes nothing; with one it makes one call, cancelling the request in the instance's
  \<open>frameRequestId\<close>; the singleton is \<open>None\<close> afterwards, so a second \<open>destroy\<close> in a row
  changes nothing and the singleton stays \<open>None\<close>. Between loop iterations
  (\<open>consistent\<close>, which holds in every world a run can be in between callbacks:
  \<open>reachable_consistent\<close>), the request cancelled was pending, it is the only one
  removed, no callback is left for the instance, and however the host fires callbacks
  afterwards the instance's loop never runs again.
\<close>

theorem destroy_cancels_and_clears:
  "(Renderer_instance w = None \<longrightarrow> destroy w = w) \<and>
   (Renderer_instance w = Some r \<longrightarrow>
      calls_since w (destroy w) = [CancelAnimationFrame (frameRequestId (objs w ! r))]) \<and>
   Renderer_instance (destroy w) = None \<and>
   objs (destroy w) = objs w \<and>
   destroy (destroy w) = destroy w \<and>
   Renderer_instance (destroy (destroy w)) = None \<and>
   (consistent w \<longrightarrow>
      consistent (destroy w) \<and>
      (case Renderer_instance w of
         None \<Rightarrow> True
       | Some r \<Rightarrow>
           (\<exists>h. frameRequestId (objs w ! r) = Some h \<and> (h, r) \<in> set (scheduled w) \<and>
                calls_since w (destroy w) = [CancelAnimationFrame (Some h)] \<and>
                scheduled (destroy w) = filter (\<lambda>e. e \<noteq> (h, r)) (scheduled w)) \<and>
           r \<notin> snd ` set (scheduled (destroy w)) \<and>
           frameCount (objs (fold (fire E) hs (destroy w)) ! r) = frameCount (objs w ! r)))"
proof -
  have "(\<exists>h. frameRequestId (objs w ! r) = Some h \<and> (h, r) \<in> set (scheduled w) \<and>
             calls_since w (destroy w) = [CancelAnimationFrame (Some h)] \<and>
             scheduled (destroy w) = filter (\<lambda>e. e \<noteq> (h, r)) (scheduled w)) \<and>
        r \<notin> snd ` set (scheduled (destroy w)) \<and>
        frameCount (objs (fold (fire E) hs (destroy w)) ! r) = frameCount (objs w ! r)"
    if act: "Renderer_instance w = Some r" and con: "consistent w" for r
  proof -
    from con have ok: "sched_ok w" by (simp add: consistent_def)
    from active_request [OF con act] obtain h where
      h: "frameRequestId (objs w ! r) = Some h" "(h, r) \<in> set (scheduled w)" by blast
    from destroy_some [OF act] h(1) have
      tr: "trace (destroy w) = trace w @ [CancelAnimationFrame (Some h)]" and
      sc: "scheduled (destroy w) = filter (\<lambda>(i, r'). Some i \<noteq> Some h) (scheduled w)"
      by simp_all
    from sc cancel_own_request [OF ok h(2)] have
      sc': "scheduled (destroy w) = filter (\<lambda>e. e \<noteq> (h, r)) (scheduled w)" by simp
    have gone: "r \<notin> snd ` set (scheduled (destroy w))"
    proof
      assume "r \<in> snd ` set (scheduled (destroy w))"
      then obtain i where i: "(i, r) \<in> set (scheduled w)" "(i, r) \<noteq> (h, r)"
        unfolding sc' by force
      from ok i(1) have "frameRequestId (objs w ! r) = Some i"
        by (auto simp: sched_ok_def list_all_iff)
      with h(1) i(2) show False by simp
    qed
    from consistent_destroy [OF con] have "sched_ok (destroy w)" by (simp add: consistent_def)
    from fold_fire_not_scheduled [OF this gone, of E hs]
    have "frameCount (objs (fold (fire E) hs (destroy w)) ! r) = frameCount (objs w ! r)"
      by simp
    with h tr sc' gone show ?thesis by (auto simp: calls_since_append)
  qed
  moreover have "calls_since w (destroy w) = [CancelAnimationFrame (frameRequestId (objs w ! r))]"
    if "Renderer_instance w = Some r"
    using destroy_some [OF that] by (simp add: calls_since_append)
  ultimately show ?thesis
    using consistent_destroy [of w]
    by (simp add: destroy_none destroy_twice split: option.split)
qed

theorem destroy_cancels_and_clears_witness:
  "consistent world1 \<and> Renderer_instance world1 = Some 0 \<and>
   calls_since world1 (destroy world1) = [CancelAnimationFrame (Some 1)] \<and>
   scheduled (destroy world1) = [] \<and>
   Renderer_instance (destroy world1) = None \<and>
   frameCount (objs (fold (fire env0) [1, 2, 1] (destroy world1)) ! 0) = 1 \<and>
   Renderer_instance world0 = None \<and> destroy world0 = world0 \<and>
   destroy (destroy world1) = destroy world1"
  using destroy_cancels_and_clears [of world1 0 env0 "[1, 2, 1]"]
    destroy_cancels_and_clears [of world0 0 env0 "[]"]
    consistent_world1
  by (simp add: world0_def)

text \<open>
  Claim C4 as stated fails when \<open>destroy\<close> is called from inside a running frame. In the
  example world the host fires request 1, and frame 2 runs up to the last call of its
  draw phase, the plugin hook (\<open>wf\<close>); the request that started the frame is no longer
  pending. Called there, \<open>destroy\<close> cancels that request, to no effect, and clears the
  singleton (\<open>wd\<close>). The iteration then runs to its end and schedules request 2 for
  renderer 0 (\<open>wr\<close>), and when the host fires it the loop of the destroyed instance
  runs frame 3.
\<close>

theorem destroy_inside_frame_reschedules:
  "(let wf = draw env0 0 (entering env0 0 (world1\<lparr>scheduled := []\<rparr>));
        wd = destroy wf;
        wr = (let (h, w5) = requestAnimationFrame 0 wd
              in assign 0 (\<lambda>r. r\<lparr>frameRequestId := Some h\<rparr>) w5)
    in fire env0 1 world1 =
         (let (h, w5) = requestAnimationFrame 0 wf
          in assign 0 (\<lambda>r. r\<lparr>frameRequestId := Some h\<rparr>) w5) \<and>
       last (trace wf) = Call (PluginManager 9) (drawAllRunningPlugins (ctx (overlay2dRenderer 0))) \<and>
       Renderer_instance wf = Some 0 \<and>
       calls_since wf wd = [CancelAnimationFrame (Some 1)] \<and>
       Renderer_instance wd = None \<and>
       scheduled wd = [] \<and>
       frameCount (objs wd ! 0) = 2 \<and>
       scheduled wr = [(2, 0)] \<and>
       frameCount (objs (fire env0 2 wr) ! 0) = 3)"
proof -
  let ?we = "entering env0 0 (world1\<lparr>scheduled := []\<rparr>)"
  let ?wf = "draw env0 0 ?we"
  let ?wd = "destroy ?wf"
  let ?wr = "assign 0 (\<lambda>r. r\<lparr>frameRequestId := Some (fst (requestAnimationFrame 0 ?wd))\<rparr>)
               (snd (requestAnimationFrame 0 ?wd))"
  have a: "fire env0 1 world1 =
         (let (h, w5) = requestAnimationFrame 0 ?wf
          in assign 0 (\<lambda>r. r\<lparr>frameRequestId := Some h\<rparr>) w5)"
    by (simp add: fire_def loop_unfold)
  have we: "objs ?we = [\<lparr>canvas = 1, glCanvas = 2, bufferCanvas = 3, frameRequestId = Some 1,
       gameUIManager = 7, frameCount = 2, now = 1047\<rparr>]"
    by (simp add: entering_objs)
  have b: "last (trace ?wf) =
      Call (PluginManager 9) (drawAllRunningPlugins (ctx (overlay2dRenderer 0)))"
    by (simp add: draw_trace Let_def)
  have c: "Renderer_instance ?wf = Some 0" by simp
  have d: "calls_since ?wf ?wd = [CancelAnimationFrame (Some 1)]"
    "Renderer_instance ?wd = None" "scheduled ?wd = []" "frameCount (objs ?wd ! 0) = 2"
    "next_request ?wd = 2" "objs ?wd = objs ?we"
    using destroy_some [OF c] by (simp_all add: we calls_since_append)
  have e: "scheduled ?wr = [(2, 0)]" "objs ?wr = [\<lparr>canvas = 1, glCanvas = 2, bufferCanvas = 3,
       frameRequestId = Some 2, gameUIManager = 7, frameCount = 2, now = 1047\<rparr>]"
    using d by (simp_all add: requestAnimationFrame_def we)
  have f: "frameCount (objs (fire env0 2 ?wr) ! 0) = 3"
    using e by (simp add: fire_def loop_objs)
  from a b c d e f show ?thesis
    by (simp add: Let_def split_beta)
qed

text \<open>
  Claim C5. Between callbacks (\<open>consistent\<close>), \<open>initialize\<close> with an instance \<open>old\<close> still active allocates
  a new object, makes it the singleton and cancels nothing: the pending callbacks are
  those from before plus the new instance's. The callback of \<open>old\<close> stays pending; a
  following \<open>destroy\<close> cancels the new instance's request only and leaves the pending
  callbacks exactly as they were before \<open>initialize\<close>, the one of \<open>old\<close> among them, which
  still runs the loop of \<open>old\<close> when the host fires it. With the singleton cleared, a
  further \<open>destroy\<close> does nothing.
\<close>

theorem reinitialize_orphans_previous_loop:
  assumes "consistent w" "Renderer_instance w = Some old"
  shows "(let (new, w1) = initialize E cv gl buf g w;
              w2 = destroy w1
          in new = length (objs w) \<and>
             new \<noteq> old \<and>
             Renderer_instance w1 = Some new \<and>
             filter is_cancel (calls_since w w1) = [] \<and>
             scheduled w1 = scheduled w @ [(next_request w, new)] \<and>
             frameRequestId (objs w1 ! new) = Some (next_request w) \<and>
             (\<exists>h. frameRequestId (objs w1 ! old) = Some h \<and>
                  (h, old) \<in> set (scheduled w1) \<and>
                  (h, old) \<in> set (scheduled w2) \<and>
                  frameCount (objs (fire E h w2) ! old) = frameCount (objs w ! old) + 1) \<and>
             calls_since w1 w2 = [CancelAnimationFrame (Some (next_request w))] \<and>
             scheduled w2 = scheduled w \<and>
             Renderer_instance w2 = None \<and>
             destroy w2 = w2)"
proof -
  let ?new = "length (objs w)"
  let ?w1 = "snd (initialize E cv gl buf g w)"
  let ?w2 = "destroy ?w1"
  from assms(1) have ok: "sched_ok w" by (simp add: consistent_def)
  from active_request [OF assms] obtain h where
    h: "frameRequestId (objs w ! old) = Some h" "(h, old) \<in> set (scheduled w)"
       "old < length (objs w)" by blast
  have inst1: "Renderer_instance ?w1 = Some ?new" by (simp add: initialize_unfold)
  have sched1: "scheduled ?w1 = scheduled w @ [(next_request w, ?new)]"
    by (simp add: initialize_unfold)
  have objs1: "frameRequestId (objs ?w1 ! ?new) = Some (next_request w)"
    "objs ?w1 ! old = objs w ! old" "length (objs ?w1) = length (objs w) + 1"
    using h(3) by (simp_all add: initialize_unfold new_objs nth_append)
  from ok have fresh: "i < next_request w" if "(i, r) \<in> set (scheduled w)" for i r
    using that by (auto simp: sched_ok_def list_all_iff)
  have sched2: "scheduled ?w2 = scheduled w"
  proof -
    have "filter (\<lambda>(i, r'). Some i \<noteq> Some (next_request w)) (scheduled w) = scheduled w"
      by (rule filter_True) (use fresh in fastforce)
    with destroy_some [OF inst1] objs1(1) sched1 show ?thesis by simp
  qed
  have tr2: "calls_since ?w1 ?w2 = [CancelAnimationFrame (Some (next_request w))]"
    using destroy_some [OF inst1] objs1(1) by (simp add: calls_since_append)
  have orphan: "frameCount (objs (fire E h ?w2) ! old) = frameCount (objs w ! old) + 1"
  proof -
    from ok have "distinct (map fst (scheduled w))" by (simp add: sched_ok_def)
    with h(2) have "map_of (scheduled ?w2) h = Some old" by (simp add: sched2)
    moreover have "old < length (objs ?w2)" using h(3) objs1(3) by simp
    ultimately show ?thesis using objs1(2) by (simp add: fire_def loop_objs)
  qed
  from h(3) have "?new \<noteq> old" by simp
  with inst1 sched1 objs1 h sched2 tr2 orphan initialize_no_cancel [of w E cv gl buf g]
  show ?thesis
    by (simp add: Let_def split_beta destroy_none initialize_unfold [THEN arg_cong, of fst])
qed

theorem reinitialize_orphans_previous_loop_witness:
  "consistent world1 \<and> Renderer_instance world1 = Some 0 \<and>
   fst (initialize env0 4 5 6 7 world1) = 1 \<and>
   scheduled (snd (initialize env0 4 5 6 7 world1)) = [(1, 0), (2, 1)] \<and>
   calls_since (snd (initialize env0 4 5 6 7 world1))
      (destroy (snd (initialize env0 4 5 6 7 world1))) = [CancelAnimationFrame (Some 2)] \<and>
   scheduled (destroy (snd (initialize env0 4 5 6 7 world1))) = [(1, 0)] \<and>
   frameCount (objs (fire env0 1 (destroy (snd (initialize env0 4 5 6 7 world1)))) ! 0) = 2"
proof -
  have a: "consistent world1" by (rule consistent_world1)
  have b: "Renderer_instance world1 = Some 0" by simp
  show ?thesis
    using a b reinitialize_orphans_previous_loop [OF a b, of env0 4 5 6 7]
    by (simp add: Let_def split_beta) (simp add: initialize_unfold new_objs)
qed

text \<open>
  Claim C6. After \<open>destroy\<close> and then \<open>initialize\<close>, the singleton is a newly allocated
  object whose frame counter starts at 0: from \<open>autoBind\<close> on, every call of the
  constructor and of \<open>setup\<close> up to the start of the loop is made while the counter
  reads 0 (the three calls before that are made before the object, with its scalar
  fields, is in the store), and it is 0 in the world in which the loop starts (\<open>wb\<close>). Exactly one iteration runs before \<open>initialize\<close> returns:
  its calls see counter 1, which is the value on return. That iteration has scheduled
  its successor, whose request is in \<open>frameRequestId\<close> and pending, so the loop is
  active: between callbacks, firing that request runs the second iteration.
\<close>

theorem destroy_then_initialize:
  "(let (r, w') = initialize E cv gl buf g (destroy w);
        wb = before_loop E cv gl buf g (destroy w)
    in r = length (objs w) \<and>
       Renderer_instance w' = Some r \<and>
       w' = (loop E r wb)\<lparr>Renderer_instance := Some r\<rparr> \<and>
       frameCount (objs wb ! r) = 0 \<and>
       frameCount (objs w' ! r) = 1 \<and>
       filter (\<lambda>c. c = RequestAnimationFrame r) (calls_since (destroy w) w') =
         [RequestAnimationFrame r] \<and>
       frameRequestId (objs w' ! r) = Some (next_request w) \<and>
       (next_request w, r) \<in> set (scheduled w') \<and>
       seen_since (destroy w) wb =
         replicate 3 (map frameCount (objs w)) @ replicate 20 (map frameCount (objs w) @ [0]) \<and>
       seen_since wb w' = map (\<lambda>c. map frameCount (objs w) @ [1]) (calls_since wb w') \<and>
       seen_since (destroy w) w' =
         replicate 3 (map frameCount (objs w)) @
         replicate 20 (map frameCount (objs w) @ [0]) @
         replicate (length (calls_since (destroy w) w') - 23) (map frameCount (objs w) @ [1]) \<and>
       (consistent w \<longrightarrow>
          consistent w' \<and> frameCount (objs (fire E (next_request w) w') ! r) = 2))"
proof -
  let ?w' = "snd (initialize E cv gl buf g (destroy w))"
  have "trace ?w' =
      trace (destroy w) @ calls_since (destroy w) (before_loop E cv gl buf g (destroy w)) @
        calls_since (before_loop E cv gl buf g (destroy w))
          (loop E (length (objs w)) (before_loop E cv gl buf g (destroy w)))"
    by (simp add: initialize_unfold new_before_loop calls_since_append [OF before_loop_trace]
          calls_since_append [OF loop_trace] loop_trace before_loop_trace)
  then have one: "filter (\<lambda>c. c = RequestAnimationFrame (length (objs w)))
       (calls_since (destroy w) ?w') = [RequestAnimationFrame (length (objs w))]"
    by (simp add: calls_since_append calls_since_append [OF before_loop_trace]
          calls_since_append [OF loop_trace] draw_calls_no_raf Let_def)
  have mem: "(next_request w, length (objs w)) \<in> set (scheduled ?w')"
    and cnt: "frameCount (objs ?w' ! length (objs w)) = 1"
    by (simp_all add: initialize_unfold new_objs)
  have "consistent ?w' \<and> frameCount (objs (fire E (next_request w) ?w') ! length (objs w)) = 2"
    if "consistent w"
  proof -
    from that have c: "consistent ?w'"
      by (intro consistent_initialize consistent_destroy)
    then have "sched_ok ?w'" by (simp add: consistent_def)
    from fire_scheduled [OF this mem, of E] cnt c show ?thesis by simp
  qed
  moreover have "seen_since (destroy w) (before_loop E cv gl buf g (destroy w)) =
      replicate 3 (map frameCount (objs w)) @ replicate 20 (map frameCount (objs w) @ [0])"
    by (rule seen_since_append) (simp add: before_loop_seen)
  moreover have "(map frameCount (objs w) @ [0])[length (objs w) := Suc 0] =
      map frameCount (objs w) @ [Suc 0]"
    using list_update_length [of "map frameCount (objs w)" 0 "[]" "Suc 0"] by simp
  then have "seen_since (before_loop E cv gl buf g (destroy w)) ?w' =
      map (\<lambda>c. map frameCount (objs w) @ [1])
        (calls_since (before_loop E cv gl buf g (destroy w)) ?w')"
    using loop_seen [of "length (objs w)" "before_loop E cv gl buf g (destroy w)" E]
    by (simp add: initialize_unfold new_before_loop seen_since_def calls_since_def)
  ultimately show ?thesis
    using one initialize_seen [of "destroy w" E cv gl buf g]
    by (simp add: Let_def initialize_unfold new_objs) (simp add: new_before_loop)
qed

theorem destroy_then_initialize_witness:
  "consistent world1 \<and>
   fst (initialize env0 4 5 6 7 (destroy world1)) = 1 \<and>
   Renderer_instance (snd (initialize env0 4 5 6 7 (destroy world1))) = Some 1 \<and>
   frameCount (objs (snd (initialize env0 4 5 6 7 (destroy world1))) ! 1) = 1 \<and>
   scheduled (snd (initialize env0 4 5 6 7 (destroy world1))) = [(2, 1)] \<and>
   frameCount (objs (fire env0 2 (snd (initialize env0 4 5 6 7 (destroy world1)))) ! 1) = 2"
proof -
  let ?i = "initialize env0 4 5 6 7 (destroy world1)"
  have a: "fst ?i = 1" "Renderer_instance (snd ?i) = Some 1"
    "frameCount (objs (snd ?i) ! 1) = 1" "next_request world1 = 2"
    by (simp_all add: initialize_unfold new_objs)
  have b: "scheduled (snd ?i) = [(2, 1)]"
    by (simp add: initialize_unfold destroy_def cancelAnimationFrame_def)
  from destroy_then_initialize [of env0 4 5 6 7 world1] consistent_world1
  have "frameCount (objs (fire env0 (next_request world1) (snd ?i)) ! fst ?i) = 2"
    unfolding Let_def split_beta by blast
  with a b consistent_world1 show ?thesis by simp
qed

text \<open>
  Claim C7. For a nonzero integer interval, \<open>debug(interval)\<close> is true exactly when
  \<open>frameCount mod interval = 0\<close> (JavaScript's remainder is zero exactly when the
  mathematical one is); for interval 0 the remainder is \<open>NaN\<close> and \<open>debug\<close> is false;
  without an argument the interval is 120, so \<open>debug()\<close> is true exactly on the frame
  counts that are multiples of 120.
\<close>

theorem debug_iff_multiple:
  "(i \<noteq> 0 \<longrightarrow> debug r (Some i) = (int (frameCount r) mod i = 0)) \<and>
   debug r (Some 0) = False \<and>
   debug r None = debug r (Some 120) \<and>
   debug r None = (frameCount r mod 120 = 0)"
proof -
  have "debug r (Some i) = (int (frameCount r) mod i = 0)" if "i \<noteq> 0"
    using that rem_zero_iff [of i "int (frameCount r)"] by (simp add: debug_def js_rem_def)
  moreover have "debug r None = (frameCount r mod 120 = 0)"
    using rem_zero_iff [of 120 "int (frameCount r)"]
    by (simp add: debug_def js_rem_def) presburger
  ultimately show ?thesis by (simp add: debug_def js_rem_def)
qed

theorem debug_iff_multiple_witness:
  "(120::int) \<noteq> 0 \<and>
   debug \<lparr>canvas = 1, glCanvas = 2, bufferCanvas = 3, frameRequestId = Some 5,
          gameUIManager = 7, frameCount = 240, now = 0\<rparr> (Some 120) \<and>
   \<not> debug \<lparr>canvas = 1, glCanvas = 2, bufferCanvas = 3, frameRequestId = Some 5,
          gameUIManager = 7, frameCount = 241, now = 0\<rparr> None"
  using debug_iff_multiple [of 120 "\<lparr>canvas = 1, glCanvas = 2, bufferCanvas = 3,
          frameRequestId = Some 5, gameUIManager = 7, frameCount = 240, now = 0\<rparr>"]
    debug_iff_multiple [of 120 "\<lparr>canvas = 1, glCanvas = 2, bufferCanvas = 3,
          frameRequestId = Some 5, gameUIManager = 7, frameCount = 241, now = 0\<rparr>"]
  by simp

text \<open>
  Claim C8. In an iteration of \<open>loop\<close> on an allocated renderer the clock is read exactly
  once, as the iteration's first call and before the calls of the draw phase; the value
  read is stored in \<open>now\<close> before \<open>draw\<close> runs and is still there when the iteration ends, and
  it is the one timestamp the iteration passes on to a collaborator: \<open>queuePlanets\<close>
  receives it.
\<close>

theorem timestamp_once:
  assumes "this < length (objs w)"
  shows "(let t = Date_now_result E (trace w);
              cs = calls_since w (loop E this w);
              we = entering E this w
          in cs = DateNow # calls_since we (draw E this we) @ [RequestAnimationFrame this] \<and>
             filter (\<lambda>c. c = DateNow) cs = [DateNow] \<and>
             concat (map timestamps cs) = [t] \<and>
             Call (planetRenderManager this)
               (queuePlanets (fst (getLocationsAndChunks_result E (trace w @
                   [DateNow, Call (glManager this) setProjectionMatrix,
                    Call (overlay2dRenderer this) clear, Call (glManager this) clear]))) t)
               \<in> set cs \<and>
             now (objs we ! this) = t \<and>
             now (objs (loop E this w) ! this) = t)"
  using assms
  by (simp add: calls_since_append [OF loop_trace] draw_calls Let_def entering_objs loop_objs
        split: option.split)

theorem timestamp_once_witness:
  "0 < length (objs world1) \<and>
   concat (map timestamps (calls_since world1 (loop env0 0 world1))) = [1047] \<and>
   Call (planetRenderManager 0) (queuePlanets [4, 5] 1047)
     \<in> set (calls_since world1 (loop env0 0 world1)) \<and>
   now (objs (loop env0 0 world1) ! 0) = 1047"
proof -
  have h: "0 < length (objs world1)" by simp
  show ?thesis using h timestamp_once [OF h, of env0] by (auto simp: Let_def)
qed

text \<open>
  Claim C9. The plugin hook ends every draw phase: the 21st call asks the state provider
  for its plugin manager. If there is one, exactly one call follows, on that manager:
  \<open>drawAllRunningPlugins\<close> with the overlay renderer's \<open>ctx\<close>, the only such call of the
  frame. If there is none, the draw phase ends there, having drawn no plugin.
\<close>

theorem plugin_hook_last:
  "(let cs = calls_since w (draw E this w);
        hook = Call (GameUIManager (gameUIManager (objs w ! this))) getPluginManager
    in cs ! 20 = hook \<and>
       (case getPluginManager_result E (trace w @ take 20 cs) of
          None \<Rightarrow> cs = take 20 cs @ [hook] \<and> filter plugin_draw cs = []
        | Some p \<Rightarrow>
            cs = take 20 cs @
              [hook, Call (PluginManager p) (drawAllRunningPlugins (ctx (overlay2dRenderer this)))] \<and>
            filter plugin_draw cs =
              [Call (PluginManager p) (drawAllRunningPlugins (ctx (overlay2dRenderer this)))]))"
  by (simp add: draw_calls Let_def split: option.split)

theorem plugin_hook_last_witness:
  "last (calls_since world1 (draw env0 0 world1)) =
     Call (PluginManager 9) (drawAllRunningPlugins (ctx (overlay2dRenderer 0))) \<and>
   length (filter plugin_draw (calls_since world1 (draw env0 0 world1))) = 1 \<and>
   last (calls_since world1 (draw env1 0 world1)) = Call (GameUIManager 7) getPluginManager \<and>
   filter plugin_draw (calls_since world1 (draw env1 0 world1)) = []"
proof -
  have a: "last (calls_since world1 (draw env0 0 world1)) =
      Call (PluginManager 9) (drawAllRunningPlugins (ctx (overlay2dRenderer 0))) \<and>
    length (filter plugin_draw (calls_since world1 (draw env0 0 world1))) = 1"
    using plugin_hook_last [of world1 env0 0]
    by (simp add: Let_def) (metis last_appendR last.simps list.distinct(1))
  have b: "last (calls_since world1 (draw env1 0 world1)) = Call (GameUIManager 7) getPluginManager \<and>
    filter plugin_draw (calls_since world1 (draw env1 0 world1)) = []"
    using plugin_hook_last [of world1 env1 0]
    by (simp add: Let_def) (metis last_snoc)
  from a b show ?thesis by simp
qed

text \<open>
  Claim C10. In an iteration of \<open>loop\<close> on an allocated renderer, every call (the clock
  read, each call of the draw phase, the request for the next frame) is made while the
  renderer's frame counter already reads one more than before the iteration, hence not
  0; \<open>draw\<close> is invoked in a world where the counter is incremented and does not touch
  it. The constructor starts from frame counter 0 and runs the first iteration itself:
  the calls of that iteration see counter 1, and the counter is 1 when the constructor,
  and with it \<open>initialize\<close>, returns. In every world a run can be in between callbacks,
  every renderer's frame counter is positive, and no method call of the whole trace (the
  calls of all draw phases) was made while a renderer in the store had frame counter 0.
\<close>

theorem frame_counter_positive:
  "(this < length (objs w) \<longrightarrow>
      frameCount (objs (entering E this w) ! this) = frameCount (objs w ! this) + 1 \<and>
      0 < frameCount (objs (entering E this w) ! this) \<and>
      objs (draw E this (entering E this w)) = objs (entering E this w) \<and>
      frameCount (objs (loop E this w) ! this) = frameCount (objs w ! this) + 1 \<and>
      calls_since w (loop E this w) =
        DateNow # calls_since (entering E this w) (draw E this (entering E this w)) @
          [RequestAnimationFrame this] \<and>
      seen_since w (loop E this w) =
        map (\<lambda>c. (map frameCount (objs w))[this := frameCount (objs w ! this) + 1])
          (calls_since w (loop E this w)) \<and>
      list_all (\<lambda>s. 0 < s ! this) (seen_since w (loop E this w))) \<and>
   (let (h, w5) = requestAnimationFrame this (draw E this (entering E this w))
    in assign this (\<lambda>r. r\<lparr>frameRequestId := Some h\<rparr>) w5) = loop E this w \<and>
   (let (r, w') = initialize E cv gl buf g w;
        wb = before_loop E cv gl buf g w
    in Renderer_new E cv gl buf g w = (r, loop E r wb) \<and>
       frameCount (objs wb ! r) = 0 \<and>
       frameCount (objs (snd (Renderer_new E cv gl buf g w)) ! r) = 1 \<and>
       frameCount (objs w' ! r) = 1 \<and>
       seen_since wb w' = map (\<lambda>c. map frameCount (objs w) @ [1]) (calls_since wb w') \<and>
       seen_since w w' =
         replicate 3 (map frameCount (objs w)) @
         replicate 20 (map frameCount (objs w) @ [0]) @
         replicate (length (calls_since w w') - 23) (map frameCount (objs w) @ [1])) \<and>
   (reachable E w \<longrightarrow> list_all (\<lambda>r. 0 < frameCount r) (objs w) \<and> never_zero w)"
proof -
  have a: "seen_since w (loop E this w) =
        map (\<lambda>c. (map frameCount (objs w))[this := frameCount (objs w ! this) + 1])
          (calls_since w (loop E this w))" if "this < length (objs w)"
    by (rule seen_since_append) (rule loop_seen [OF that])
  have b: "list_all (\<lambda>s. 0 < s ! this) (seen_since w (loop E this w))"
    if "this < length (objs w)"
    using that unfolding a [OF that] by (simp add: list_all_iff)
  have d: "calls_since w (loop E this w) =
        DateNow # calls_since (entering E this w) (draw E this (entering E this w)) @
          [RequestAnimationFrame this]"
    by (rule calls_since_append) (simp add: loop_trace)
  have p1: "this < length (objs w) \<longrightarrow>
      frameCount (objs (entering E this w) ! this) = frameCount (objs w ! this) + 1 \<and>
      0 < frameCount (objs (entering E this w) ! this) \<and>
      objs (draw E this (entering E this w)) = objs (entering E this w) \<and>
      frameCount (objs (loop E this w) ! this) = frameCount (objs w ! this) + 1 \<and>
      calls_since w (loop E this w) =
        DateNow # calls_since (entering E this w) (draw E this (entering E this w)) @
          [RequestAnimationFrame this] \<and>
      seen_since w (loop E this w) =
        map (\<lambda>c. (map frameCount (objs w))[this := frameCount (objs w ! this) + 1])
          (calls_since w (loop E this w)) \<and>
      list_all (\<lambda>s. 0 < s ! this) (seen_since w (loop E this w))"
    using a b d by (simp add: entering_objs loop_objs)
  have p2: "(let (h, w5) = requestAnimationFrame this (draw E this (entering E this w))
    in assign this (\<lambda>r. r\<lparr>frameRequestId := Some h\<rparr>) w5) = loop E this w"
    by (simp add: loop_unfold)
  let ?wb = "before_loop E cv gl buf g w"
  have "(map frameCount (objs w) @ [0])[length (objs w) := Suc 0] =
      map frameCount (objs w) @ [Suc 0]"
    using list_update_length [of "map frameCount (objs w)" 0 "[]" "Suc 0"] by simp
  then have c: "seen_since ?wb (snd (initialize E cv gl buf g w)) =
      map (\<lambda>c. map frameCount (objs w) @ [1]) (calls_since ?wb (snd (initialize E cv gl buf g w)))"
    using loop_seen [of "length (objs w)" ?wb E]
    by (simp add: initialize_unfold new_before_loop seen_since_def calls_since_def)
  have p3: "(let (r, w') = initialize E cv gl buf g w;
        wb = before_loop E cv gl buf g w
    in Renderer_new E cv gl buf g w = (r, loop E r wb) \<and>
       frameCount (objs wb ! r) = 0 \<and>
       frameCount (objs (snd (Renderer_new E cv gl buf g w)) ! r) = 1 \<and>
       frameCount (objs w' ! r) = 1 \<and>
       seen_since wb w' = map (\<lambda>c. map frameCount (objs w) @ [1]) (calls_since wb w') \<and>
       seen_since w w' =
         replicate 3 (map frameCount (objs w)) @
         replicate 20 (map frameCount (objs w) @ [0]) @
         replicate (length (calls_since w w') - 23) (map frameCount (objs w) @ [1]))"
    using c initialize_seen [of w E cv gl buf g]
    by (simp add: Let_def initialize_unfold new_objs) (simp add: new_before_loop)
  have p4: "reachable E w \<longrightarrow> list_all (\<lambda>r. 0 < frameCount r) (objs w) \<and> never_zero w"
    using frames_positive [of E w] never_zero_reachable [of E w] by simp
  from p1 p2 p3 p4 show ?thesis by (intro conjI)
qed

theorem frame_counter_positive_witness:
  "0 < length (objs world1) \<and> reachable env0 world1 \<and>
   frameCount (objs world1 ! 0) = 1 \<and>
   frameCount (objs (entering env0 0 world1) ! 0) = 2 \<and>
   frameCount (objs (loop env0 0 world1) ! 0) = 2 \<and>
   seen_since world1 (loop env0 0 world1) = replicate 24 [2] \<and>
   seen world1 = replicate 3 [] @ replicate 20 [0] @ replicate 24 [1] \<and>
   never_zero world1"
proof -
  have h: "0 < length (objs world1)" by simp
  have r: "reachable env0 world1" by (rule reachable_world1)
  have n: "length (calls_since world1 (loop env0 0 world1)) = 24"
    by (simp add: calls_since_append [OF loop_trace] draw_calls Let_def)
  from frame_counter_positive [of 0 world1 env0 1 2 3 7] h r
  have "frameCount (objs (entering env0 0 world1) ! 0) = 2 \<and>
    frameCount (objs (loop env0 0 world1) ! 0) = 2 \<and>
    seen_since world1 (loop env0 0 world1) =
      map (\<lambda>c. [2]) (calls_since world1 (loop env0 0 world1)) \<and>
    never_zero world1"
    by simp
  with h r n world1_seen show ?thesis by (simp add: map_replicate_const)
qed

end
